theory Spec2Isabelle
  imports Complex_Main "HOL-Library.Word"
begin

section \<open>Floating-point values\<close>

text \<open>
  The panner computes in \<^verbatim>\<open>float\<close> and \<^verbatim>\<open>double\<close>. Both are modelled by one type
  \<open>fp\<close>: a real number, the two infinities, or NaN, with the IEEE 754 rules for the
  special values. Rounding and the sign of zero are not represented: a finite result is
  the exact real result, a zero divisor counts as \<open>+0\<close>, and the casts between
  \<^verbatim>\<open>float\<close> and \<^verbatim>\<open>double\<close> are the identity. Where the rounding decides a property, for
  the sum of the divergence weights, the operations are rounded: see \<open>round_double\<close>.
\<close>

datatype fp = Fin real | PInf | NInf | NaN

instantiation fp :: "{zero, one, plus, uminus, minus, times, inverse}"
begin

definition zero_fp :: fp where
  "zero_fp = Fin 0"

definition one_fp :: fp where
  "one_fp = Fin 1"

fun plus_fp :: "fp \<Rightarrow> fp \<Rightarrow> fp" where
  "Fin a + Fin b = Fin (a + b)"
| "NaN + _ = NaN"
| "_ + NaN = NaN"
| "PInf + NInf = NaN"
| "NInf + PInf = NaN"
| "PInf + _ = PInf"
| "_ + PInf = PInf"
| "NInf + _ = NInf"
| "_ + NInf = NInf"

fun uminus_fp :: "fp \<Rightarrow> fp" where
  "- Fin a = Fin (- a)"
| "- PInf = NInf"
| "- NInf = PInf"
| "- NaN = NaN"

definition minus_fp :: "fp \<Rightarrow> fp \<Rightarrow> fp" where
  "minus_fp a b = a + (- b)"

fun times_fp :: "fp \<Rightarrow> fp \<Rightarrow> fp" where
  "Fin a * Fin b = Fin (a * b)"
| "NaN * _ = NaN"
| "_ * NaN = NaN"
| "Fin a * PInf = (if a = 0 then NaN else if 0 < a then PInf else NInf)"
| "Fin a * NInf = (if a = 0 then NaN else if 0 < a then NInf else PInf)"
| "PInf * Fin b = (if b = 0 then NaN else if 0 < b then PInf else NInf)"
| "NInf * Fin b = (if b = 0 then NaN else if 0 < b then NInf else PInf)"
| "PInf * PInf = PInf"
| "PInf * NInf = NInf"
| "NInf * PInf = NInf"
| "NInf * NInf = PInf"

fun divide_fp :: "fp \<Rightarrow> fp \<Rightarrow> fp" where
  "divide_fp (Fin a) (Fin b) =
     (if b = 0 then (if a = 0 then NaN else if 0 < a then PInf else NInf)
      else Fin (a / b))"
| "divide_fp NaN _ = NaN"
| "divide_fp _ NaN = NaN"
| "divide_fp (Fin a) PInf = Fin 0"
| "divide_fp (Fin a) NInf = Fin 0"
| "divide_fp PInf (Fin b) = (if 0 \<le> b then PInf else NInf)"
| "divide_fp NInf (Fin b) = (if 0 \<le> b then NInf else PInf)"
| "divide_fp PInf PInf = NaN"
| "divide_fp PInf NInf = NaN"
| "divide_fp NInf PInf = NaN"
| "divide_fp NInf NInf = NaN"

definition inverse_fp :: "fp \<Rightarrow> fp" where
  "inverse_fp a = divide (Fin 1) a"

instance ..

end

text \<open>\<^verbatim>\<open>sqrt\<close> of \<^verbatim>\<open><cmath>\<close>: NaN below zero.\<close>

fun fsqrt :: "fp \<Rightarrow> fp" where
  "fsqrt (Fin a) = (if a < 0 then NaN else Fin (sqrt a))"
| "fsqrt PInf = PInf"
| "fsqrt NInf = NaN"
| "fsqrt NaN = NaN"

text \<open>The comparison \<^verbatim>\<open>==\<close> on floating-point values: NaN equals nothing.\<close>

fun feq :: "fp \<Rightarrow> fp \<Rightarrow> bool" where
  "feq NaN _ = False"
| "feq _ NaN = False"
| "feq a b = (a = b)"

text \<open>The cast \<^verbatim>\<open>(float)\<close> of an \<^verbatim>\<open>int\<close>.\<close>

definition float_of_int :: "int \<Rightarrow> fp" where
  "float_of_int i = Fin (real_of_int i)"

section \<open>Data model\<close>

text \<open>
  The types of \<^verbatim>\<open>AdmPointSourcePanner.h\<close> and the metadata header, which are not part
  of the source at hand; the fields are the ones the panner reads. \<open>PolarPosition\<close> and
  \<open>CartesianPosition\<close> are built by brace initialisation in the source, in the order
  azimuth, elevation, distance and x, y, z.
\<close>

datatype PolarPosition = PolarPosition (azimuth: fp) (elevation: fp) (distance: fp)

datatype CartesianPosition = CartesianPosition (cart_x: fp) (cart_y: fp) (cart_z: fp)

datatype ObjectDivergence = ObjectDivergence (divergence_value: fp) (azimuthRange: fp)

text \<open>
  \<open>interpolationLength\<close> is assigned to the local \<^verbatim>\<open>int nInterpSamples\<close>: a 32-bit
  signed integer, read with \<open>sint\<close>.
\<close>

record JumpPosition =
  flag :: bool
  interpolationLength :: "32 word"

text \<open>
  The requests for the channel lock and the zone exclusion are opaque to the panner:
  type parameters \<open>'cl\<close> and \<open>'ze\<close>.
\<close>

record ('cl, 'ze) ObjectMetadata =
  cartesian :: bool
  cartesianPosition :: CartesianPosition
  polarPosition :: PolarPosition
  objectDivergence :: ObjectDivergence
  channelLock :: 'cl
  zoneExclusionPolar :: 'ze
  gain :: fp
  diffuse :: fp
  jumpPosition :: JumpPosition

record Channel =
  isLFE :: bool

record Layout =
  channels :: "Channel list"

text \<open>
  The collaborators of the panner, none of them in the source at hand: the geometry
  functions, the gain calculator, the channel lock handler and the zone exclusion
  handler. They are parameters of the model. \<open>getRotationMatrix\<close> fills an array of
  nine doubles, given here as the map from the index to the entry.
\<close>

record ('cl, 'ze) Collaborators =
  CartesianToPolar :: "CartesianPosition \<Rightarrow> PolarPosition"
  PolarToCartesian :: "PolarPosition \<Rightarrow> CartesianPosition"
  getRotationMatrix :: "fp \<Rightarrow> fp \<Rightarrow> fp \<Rightarrow> nat \<Rightarrow> fp"
  CalculateGains :: "PolarPosition \<Rightarrow> fp list"
  channelLock_handle :: "'cl \<Rightarrow> PolarPosition \<Rightarrow> PolarPosition"
  zoneExclusion_handle :: "'ze \<Rightarrow> fp list \<Rightarrow> fp list"

text \<open>The members of \<open>CAdmPointSourcePanner\<close> that \<open>ProcessAccumul\<close> reads and writes.\<close>

record ('cl, 'ze) Panner =
  m_layout :: Layout
  m_nCh :: nat
  m_gains :: "fp list"
  m_metadata :: "('cl, 'ze) ObjectMetadata"
  m_bFirstFrame :: bool

section \<open>Memory accesses and loops\<close>

text \<open>
  \<^verbatim>\<open>operator[]\<close> of \<^verbatim>\<open>std::vector\<close> and the indexing of a pointer do not check the
  index. An access outside the valid range is undefined behaviour: the value \<open>None\<close>.
\<close>

definition vec_at :: "'a list \<Rightarrow> nat \<Rightarrow> 'a option" where
  "vec_at xs i = (if i < length xs then Some (xs ! i) else None)"

definition ptr_at :: "'a list \<Rightarrow> int \<Rightarrow> 'a option" where
  "ptr_at xs i = (if 0 \<le> i \<and> i < int (length xs) then Some (xs ! nat i) else None)"

text \<open>A \<^verbatim>\<open>for\<close> loop over the values of its counter, stopping at the first fault.\<close>

fun for_loop :: "'i list \<Rightarrow> ('i \<Rightarrow> 's \<Rightarrow> 's option) \<Rightarrow> 's \<Rightarrow> 's option" where
  "for_loop [] body s = Some s"
| "for_loop (i # is) body s = (case body i s of None \<Rightarrow> None | Some s' \<Rightarrow> for_loop is body s')"

section \<open>The constructor\<close>

text \<open>
  Lines 22 to 31. \<open>m_metadata\<close> is default-constructed; the default value \<open>md0\<close> is a
  parameter.

  Modelled from the spec: the initial value of \<open>m_bFirstFrame\<close> is set in the class
  declaration, which is not in the source at hand; the specification gives
  \<open>isFirstFrame\<close> as initialised to true.
\<close>

definition count_nonLFE :: "Channel list \<Rightarrow> nat" where
  "count_nonLFE cs = length (filter (\<lambda>c. \<not> isLFE c) cs)"

definition CAdmPointSourcePanner ::
  "('cl, 'ze) ObjectMetadata \<Rightarrow> Layout \<Rightarrow> ('cl, 'ze) Panner" where
  "CAdmPointSourcePanner md0 targetLayout =
     \<lparr> m_layout = targetLayout,
       m_nCh = count_nonLFE (channels targetLayout),
       m_gains = replicate (count_nonLFE (channels targetLayout)) 0,
       m_metadata = md0,
       m_bFirstFrame = True \<rparr>"

section \<open>divergedPositionsAndGains\<close>

text \<open>Lines 174 to 178: one cartesian position rotated by \<open>rotMat\<close> and converted to polar.\<close>

definition directionRotated :: "(nat \<Rightarrow> fp) \<Rightarrow> fp list \<Rightarrow> nat \<Rightarrow> fp" where
  "directionRotated rotMat cartPosition i =
     foldl (\<lambda>acc j. acc + rotMat (3 * i + j) * cartPosition ! j) 0 [0, 1, 2]"

definition rotated_polar ::
  "('cl, 'ze) Collaborators \<Rightarrow> (nat \<Rightarrow> fp) \<Rightarrow> fp list \<Rightarrow> PolarPosition" where
  "rotated_polar X rotMat cartPosition =
     CartesianToPolar X
       (CartesianPosition (- directionRotated rotMat cartPosition 1)
                          (directionRotated rotMat cartPosition 0)
                          (directionRotated rotMat cartPosition 2))"

definition divergedPositionsAndGains ::
  "('cl, 'ze) Collaborators \<Rightarrow> ObjectDivergence \<Rightarrow> PolarPosition
     \<Rightarrow> PolarPosition list \<times> fp list" where
  "divergedPositionsAndGains X divergence polarDirection =
     (let x = divergence_value divergence;
          d = distance polarDirection
      in if feq x 0 then ([polarDirection], [1])
         else
           let glr = x / (x + 1);
               diverged_gains = [(1 - x) / (x + 1), glr, glr];
               cartesianTmp1 = PolarToCartesian X
                                 (PolarPosition (x * azimuthRange divergence) 0 d);
               cartesianTmp2 = PolarToCartesian X
                                 (PolarPosition (- x * azimuthRange divergence) 0 d);
               cartPositions =
                 [[d, 0, 0],
                  [cart_y cartesianTmp1, - cart_x cartesianTmp1, cart_z cartesianTmp1],
                  [cart_y cartesianTmp2, - cart_x cartesianTmp2, cart_z cartesianTmp2]];
               rotMat = getRotationMatrix X (azimuth polarDirection)
                          (- elevation polarDirection) 0;
               diverged_positions = map (rotated_polar X rotMat) cartPositions
           in (diverged_positions, diverged_gains))"

subsection \<open>The weights in binary64 arithmetic\<close>

text \<open>
  Lines 156 to 159 compute the weights in \<^verbatim>\<open>double\<close>. To say how far the rounding takes
  them from the formulas, the same lines are given here on the reals with every
  operation rounded to binary64: to the nearest number of 53 significant bits, a tie
  going to the even one, with the spacing of the subnormal numbers below \<open>2 powr -1022\<close>.
  Numbers beyond the largest \<^verbatim>\<open>double\<close> are not treated: for a divergence value from 0
  to 1 every number rounded here is below 4.

  \<open>round_even\<close> is the nearest integer, \<open>ulp_double y\<close> the distance between the
  neighbouring binary64 numbers at \<open>y\<close>.
\<close>

definition round_even :: "real \<Rightarrow> int" where
  "round_even m =
     (let f = \<lfloor>m\<rfloor>; d = m - of_int f
      in if d < 1 / 2 then f else if 1 / 2 < d then f + 1 else if even f then f else f + 1)"

definition ulp_double :: "real \<Rightarrow> real" where
  "ulp_double y = 2 powr of_int (max \<lfloor>log 2 \<bar>y\<bar>\<rfloor> (- 1022) - 52)"

definition round_double :: "real \<Rightarrow> real" where
  "round_double y =
     (if y = 0 then 0 else of_int (round_even (y / ulp_double y)) * ulp_double y)"

text \<open>Lines 156 to 159, rounded; the divisor \<open>x + 1.\<close> is not 0 for the values of \<open>x\<close> above.\<close>

definition diverged_gains_double :: "real \<Rightarrow> real list" where
  "diverged_gains_double x =
     (let glr = round_double (x / round_double (x + 1))
      in [round_double (round_double (1 - x) / round_double (x + 1)), glr, glr])"

section \<open>ProcessAccumul\<close>

subsection \<open>The target gains and the interpolation length (lines 41 to 102)\<close>

text \<open>Lines 72 to 74, first the body of the loop.\<close>

definition gains_for_positions_body ::
  "('cl, 'ze) Collaborators \<Rightarrow> PolarPosition list \<Rightarrow> nat \<Rightarrow> fp list list \<Rightarrow> fp list list option" where
  "gains_for_positions_body X diverged_positions iGain gains_for_each_pos =
     (case vec_at diverged_positions iGain of
        None \<Rightarrow> None
      | Some pos \<Rightarrow> Some (gains_for_each_pos @ [CalculateGains X pos]))"

definition gains_for_positions ::
  "('cl, 'ze) Collaborators \<Rightarrow> PolarPosition list \<Rightarrow> nat \<Rightarrow> fp list list option" where
  "gains_for_positions X diverged_positions nDivergedGains =
     for_loop [0..<nDivergedGains] (gains_for_positions_body X diverged_positions) []"

text \<open>Line 81: the body of the loop over the diverged positions, for output channel \<open>i\<close>.\<close>

definition power_sum_body :: "fp list \<Rightarrow> fp list list \<Rightarrow> nat \<Rightarrow> nat \<Rightarrow> fp \<Rightarrow> fp option" where
  "power_sum_body diverged_gains gains_for_each_pos i j g_tmp =
     (case (vec_at diverged_gains j, vec_at gains_for_each_pos j) of
        (Some w, Some gs) \<Rightarrow>
          (case vec_at gs i of
             None \<Rightarrow> None
           | Some g \<Rightarrow> Some (g_tmp + w * g * g))
      | _ \<Rightarrow> None)"

text \<open>Lines 79 to 82: the gain of output channel \<open>i\<close>.\<close>

definition power_sum :: "fp list \<Rightarrow> fp list list \<Rightarrow> nat \<Rightarrow> fp option" where
  "power_sum diverged_gains gains_for_each_pos i =
     map_option fsqrt
       (for_loop [0..<length diverged_gains]
          (power_sum_body diverged_gains gains_for_each_pos i) 0)"

text \<open>Lines 77 to 83.\<close>

definition power_summation_body :: "fp list \<Rightarrow> fp list list \<Rightarrow> nat \<Rightarrow> fp list \<Rightarrow> fp list option" where
  "power_summation_body diverged_gains gains_for_each_pos i gains =
     (case power_sum diverged_gains gains_for_each_pos i of
        None \<Rightarrow> None
      | Some g \<Rightarrow> Some (gains @ [g]))"

definition power_summation :: "nat \<Rightarrow> fp list \<Rightarrow> fp list list \<Rightarrow> fp list option" where
  "power_summation nCh diverged_gains gains_for_each_pos =
     for_loop [0..<nCh] (power_summation_body diverged_gains gains_for_each_pos) []"

text \<open>Lines 48 to 63: the panning direction.\<close>

definition panning_direction ::
  "('cl, 'ze) Collaborators \<Rightarrow> ('cl, 'ze) ObjectMetadata \<Rightarrow> PolarPosition" where
  "panning_direction X metadata =
     channelLock_handle X (channelLock metadata)
       (if cartesian metadata then CartesianToPolar X (cartesianPosition metadata)
        else polarPosition metadata)"

text \<open>Lines 66 to 83: the gains before the zone exclusion.\<close>

definition summed_gains ::
  "('cl, 'ze) Collaborators \<Rightarrow> nat \<Rightarrow> ('cl, 'ze) ObjectMetadata \<Rightarrow> fp list option" where
  "summed_gains X nCh metadata =
     (let divergedData = divergedPositionsAndGains X (objectDivergence metadata)
                           (panning_direction X metadata);
          diverged_positions = fst divergedData;
          diverged_gains = snd divergedData;
          nDivergedGains = length diverged_gains
      in case gains_for_positions X diverged_positions nDivergedGains of
           None \<Rightarrow> None
         | Some gains_for_each_pos \<Rightarrow>
             power_summation nCh diverged_gains gains_for_each_pos)"

text \<open>Lines 66 to 91: the gains after the zone exclusion and the overall gain.\<close>

definition recomputed_gains ::
  "('cl, 'ze) Collaborators \<Rightarrow> nat \<Rightarrow> ('cl, 'ze) ObjectMetadata \<Rightarrow> fp list option" where
  "recomputed_gains X nCh metadata =
     map_option
       (\<lambda>gains. map (\<lambda>g. g * gain metadata)
                  (zoneExclusion_handle X (zoneExclusionPolar metadata) gains))
       (summed_gains X nCh metadata)"

text \<open>
  Lines 41 to 102: the local \<open>gains\<close> and \<open>nInterpSamples\<close> when the application
  of the gains starts.

  Modelled from the spec: \<^verbatim>\<open>operator==\<close> of \<open>ObjectMetadata\<close> is declared in a header
  that is not in the source at hand; by the specification two metadata values are equal
  iff every field compares equal.
\<close>

definition gains_and_interp ::
  "('cl, 'ze) Collaborators \<Rightarrow> ('cl, 'ze) Panner \<Rightarrow> ('cl, 'ze) ObjectMetadata
     \<Rightarrow> (fp list \<times> int) option" where
  "gains_and_interp X p metadata =
     (if \<not> (metadata = m_metadata p) then
        (case recomputed_gains X (m_nCh p) metadata of
           None \<Rightarrow> None
         | Some gains \<Rightarrow>
             Some (gains,
                   if flag (jumpPosition metadata) \<and> \<not> m_bFirstFrame p
                   then sint (interpolationLength (jumpPosition metadata))
                   else 0))
      else Some (m_gains p, 0))"

subsection \<open>The application of the gains (lines 104 to 132)\<close>

text \<open>
  Line 115. The quotient is evaluated for every non-LFE channel, before the loops and
  whatever the value of \<open>nInterpSamples\<close>.
\<close>

definition deltaCoeff :: "int \<Rightarrow> fp" where
  "deltaCoeff nInterpSamples = 1 / float_of_int nInterpSamples"

text \<open>
  The index \<^verbatim>\<open>iSample + nOffset\<close>: the sum of an \<^verbatim>\<open>int\<close> and an \<^verbatim>\<open>unsigned int\<close> is
  unsigned and wraps.
\<close>

definition sample_slot :: "32 word \<Rightarrow> int \<Rightarrow> nat" where
  "sample_slot nOffset iSample = unat (word_of_int iSample + nOffset)"

text \<open>The statement \<^verbatim>\<open>row[k] += v\<close>.\<close>

definition add_at :: "fp list \<Rightarrow> nat \<Rightarrow> fp \<Rightarrow> fp list" where
  "add_at row k v = row [k := row ! k + v]"

text \<open>Lines 121, 122 and 127, 128: the two \<^verbatim>\<open>+=\<close> on \<open>ppDirect[i][k]\<close> and \<open>ppDiffuse[i][k]\<close>.\<close>

definition accumulate ::
  "fp \<Rightarrow> fp \<Rightarrow> nat \<Rightarrow> nat \<Rightarrow> fp \<Rightarrow> fp list list \<times> fp list list
     \<Rightarrow> (fp list list \<times> fp list list) option" where
  "accumulate directCoefficient diffuseCoefficient i k sampleData bufs =
     (case bufs of (ppDirect, ppDiffuse) \<Rightarrow>
        if i < length ppDirect \<and> k < length (ppDirect ! i)
           \<and> i < length ppDiffuse \<and> k < length (ppDiffuse ! i)
        then Some
          (ppDirect [i := add_at (ppDirect ! i) k (sampleData * directCoefficient)],
           ppDiffuse [i := add_at (ppDiffuse ! i) k (sampleData * diffuseCoefficient)])
        else None)"

text \<open>Lines 119 and 120: the gain on sample \<open>iSample\<close> of the interpolation loop.\<close>

definition interp_gain :: "fp \<Rightarrow> fp \<Rightarrow> fp \<Rightarrow> int \<Rightarrow> fp" where
  "interp_gain dCoeff g1 g0 iSample =
     (let fInterp = float_of_int iSample * dCoeff
      in fInterp * g1 + (1 - fInterp) * g0)"

text \<open>Line 120: \<open>sampleData\<close> in the interpolation loop.\<close>

definition interp_sample :: "fp list \<Rightarrow> fp list \<Rightarrow> fp list \<Rightarrow> fp \<Rightarrow> nat \<Rightarrow> int \<Rightarrow> fp option" where
  "interp_sample gains lastGains pIn dCoeff iCh iSample =
     (case (ptr_at pIn iSample, vec_at gains iCh, vec_at lastGains iCh) of
        (Some x, Some g1, Some g0) \<Rightarrow> Some (x * interp_gain dCoeff g1 g0 iSample)
      | _ \<Rightarrow> None)"

text \<open>Line 126: \<open>sampleData\<close> in the loop after the interpolation.\<close>

definition steady_sample :: "fp list \<Rightarrow> fp list \<Rightarrow> nat \<Rightarrow> int \<Rightarrow> fp option" where
  "steady_sample gains pIn iCh iSample =
     (case (ptr_at pIn iSample, vec_at gains iCh) of
        (Some x, Some g1) \<Rightarrow> Some (x * g1)
      | _ \<Rightarrow> None)"

text \<open>The body of either loop: \<open>sampleData\<close>, then the two \<^verbatim>\<open>+=\<close>.\<close>

definition sample_body ::
  "(int \<Rightarrow> fp option) \<Rightarrow> 32 word \<Rightarrow> fp \<Rightarrow> fp \<Rightarrow> nat
     \<Rightarrow> int \<Rightarrow> fp list list \<times> fp list list \<Rightarrow> (fp list list \<times> fp list list) option" where
  "sample_body sampleData nOffset directCoefficient diffuseCoefficient i iSample bufs =
     (case sampleData iSample of
        None \<Rightarrow> None
      | Some v \<Rightarrow>
          accumulate directCoefficient diffuseCoefficient i (sample_slot nOffset iSample) v bufs)"

text \<open>
  The values of \<open>iSample\<close> in the two loops: from 0 below \<open>nInterpSamples\<close>, then from
  \<open>nInterpSamples\<close> below \<^verbatim>\<open>(int)nSamples\<close>.
\<close>

definition interp_range :: "int \<Rightarrow> int list" where
  "interp_range nInterpSamples = [0..nInterpSamples - 1]"

definition steady_range :: "int \<Rightarrow> 32 word \<Rightarrow> int list" where
  "steady_range nInterpSamples nSamples = [nInterpSamples..sint nSamples - 1]"

text \<open>Lines 115 to 129: one non-LFE channel \<open>i\<close>, with the gain index \<open>iCh\<close>.\<close>

definition apply_channel ::
  "fp list \<Rightarrow> fp list \<Rightarrow> fp list \<Rightarrow> int \<Rightarrow> 32 word \<Rightarrow> 32 word \<Rightarrow> fp \<Rightarrow> fp \<Rightarrow> nat \<Rightarrow> nat
     \<Rightarrow> fp list list \<times> fp list list \<Rightarrow> (fp list list \<times> fp list list) option" where
  "apply_channel gains lastGains pIn nInterpSamples nSamples nOffset
       directCoefficient diffuseCoefficient i iCh bufs =
     (let dCoeff = deltaCoeff nInterpSamples
      in case for_loop (interp_range nInterpSamples)
                (sample_body (interp_sample gains lastGains pIn dCoeff iCh)
                   nOffset directCoefficient diffuseCoefficient i) bufs of
           None \<Rightarrow> None
         | Some bufs' \<Rightarrow>
             for_loop (steady_range nInterpSamples nSamples)
               (sample_body (steady_sample gains pIn iCh)
                  nOffset directCoefficient diffuseCoefficient i) bufs')"

text \<open>Lines 109 to 132: the loop over the channels of the layout.\<close>

definition channel_body ::
  "Channel list \<Rightarrow> fp list \<Rightarrow> fp list \<Rightarrow> fp list \<Rightarrow> int \<Rightarrow> 32 word \<Rightarrow> 32 word \<Rightarrow> fp \<Rightarrow> fp
     \<Rightarrow> nat \<Rightarrow> (fp list list \<times> fp list list) \<times> nat
     \<Rightarrow> ((fp list list \<times> fp list list) \<times> nat) option" where
  "channel_body chs gains lastGains pIn nInterpSamples nSamples nOffset
       directCoefficient diffuseCoefficient i st =
     (case st of (bufs, iCh) \<Rightarrow>
        if \<not> isLFE (chs ! i) then
          (case apply_channel gains lastGains pIn nInterpSamples nSamples nOffset
                  directCoefficient diffuseCoefficient i iCh bufs of
             None \<Rightarrow> None
           | Some bufs' \<Rightarrow> Some (bufs', iCh + 1))
        else Some (bufs, iCh))"

definition apply_gains ::
  "Channel list \<Rightarrow> fp list \<Rightarrow> fp list \<Rightarrow> fp list \<Rightarrow> int \<Rightarrow> 32 word \<Rightarrow> 32 word \<Rightarrow> fp \<Rightarrow> fp
     \<Rightarrow> fp list list \<times> fp list list \<Rightarrow> (fp list list \<times> fp list list) option" where
  "apply_gains chs gains lastGains pIn nInterpSamples nSamples nOffset
       directCoefficient diffuseCoefficient bufs =
     map_option fst
       (for_loop [0..<length chs]
          (channel_body chs gains lastGains pIn nInterpSamples nSamples nOffset
             directCoefficient diffuseCoefficient)
          (bufs, 0))"

subsection \<open>The whole operation\<close>

text \<open>
  The result is the panner after the call with the two buffers, or \<open>None\<close> when the
  call leaves the valid range of a vector or of \<open>pIn\<close>.
\<close>

definition ProcessAccumul ::
  "('cl, 'ze) Collaborators \<Rightarrow> ('cl, 'ze) Panner \<Rightarrow> ('cl, 'ze) ObjectMetadata \<Rightarrow> fp list
     \<Rightarrow> fp list list \<Rightarrow> fp list list \<Rightarrow> 32 word \<Rightarrow> 32 word
     \<Rightarrow> (('cl, 'ze) Panner \<times> fp list list \<times> fp list list) option" where
  "ProcessAccumul X p metadata pIn ppDirect ppDiffuse nSamples nOffset =
     (case gains_and_interp X p metadata of
        None \<Rightarrow> None
      | Some (gains, nInterpSamples) \<Rightarrow>
          (let directCoefficient = fsqrt (1 - diffuse metadata);
               diffuseCoefficient = fsqrt (diffuse metadata)
           in case apply_gains (channels (m_layout p)) gains (m_gains p) pIn
                     nInterpSamples nSamples nOffset directCoefficient diffuseCoefficient
                     (ppDirect, ppDiffuse) of
                None \<Rightarrow> None
              | Some (ppDirect', ppDiffuse') \<Rightarrow>
                  Some (p \<lparr> m_gains := gains, m_metadata := metadata, m_bFirstFrame := False \<rparr>,
                        ppDirect', ppDiffuse')))"

section \<open>The effect of the loops, in closed form\<close>

text \<open>
  The definitions of this section are not part of the program: they say what the loops
  of \<open>ProcessAccumul\<close> compute, and the lemmas below prove that they do.

  \<open>row_after\<close> is a row of a buffer after a loop over the samples \<open>ss\<close>, and
  \<open>samples_ok\<close> says that the loop stays inside \<open>pIn\<close>, the gain vectors and the two rows.
\<close>

definition row_after :: "(int \<Rightarrow> fp option) \<Rightarrow> 32 word \<Rightarrow> fp \<Rightarrow> int list \<Rightarrow> fp list \<Rightarrow> fp list" where
  "row_after sampleData nOffset coeff ss row =
     fold (\<lambda>s r. add_at r (sample_slot nOffset s) (the (sampleData s) * coeff)) ss row"

definition samples_ok :: "(int \<Rightarrow> fp option) \<Rightarrow> 32 word \<Rightarrow> int list \<Rightarrow> nat \<Rightarrow> fp list list \<times> fp list list \<Rightarrow> bool" where
  "samples_ok sampleData nOffset ss i bufs =
     (ss = [] \<or> (i < length (fst bufs) \<and> i < length (snd bufs) \<and>
        (\<forall>s \<in> set ss. sampleData s \<noteq> None \<and> sample_slot nOffset s < length (fst bufs ! i)
            \<and> sample_slot nOffset s < length (snd bufs ! i))))"

text \<open>
  \<open>channel_ok\<close> and \<open>channel_row\<close> are the same for the two loops of one non-LFE channel,
  the first over the samples of the interpolation and the second over the rest.
\<close>

definition channel_ok ::
  "fp list \<Rightarrow> fp list \<Rightarrow> fp list \<Rightarrow> int \<Rightarrow> 32 word \<Rightarrow> 32 word \<Rightarrow> nat \<Rightarrow> nat
     \<Rightarrow> fp list list \<times> fp list list \<Rightarrow> bool" where
  "channel_ok gains lastGains pIn nInterpSamples nSamples nOffset i iCh bufs =
     (samples_ok (interp_sample gains lastGains pIn (deltaCoeff nInterpSamples) iCh) nOffset
        (interp_range nInterpSamples) i bufs
      \<and> samples_ok (steady_sample gains pIn iCh) nOffset
        (steady_range nInterpSamples nSamples) i bufs)"

definition channel_row ::
  "fp list \<Rightarrow> fp list \<Rightarrow> fp list \<Rightarrow> int \<Rightarrow> 32 word \<Rightarrow> 32 word \<Rightarrow> fp \<Rightarrow> nat
     \<Rightarrow> fp list \<Rightarrow> fp list" where
  "channel_row gains lastGains pIn nInterpSamples nSamples nOffset coeff iCh row =
     row_after (steady_sample gains pIn iCh) nOffset coeff (steady_range nInterpSamples nSamples)
       (row_after (interp_sample gains lastGains pIn (deltaCoeff nInterpSamples) iCh) nOffset coeff
          (interp_range nInterpSamples) row)"

text \<open>The gain index of channel \<open>i\<close>: the number of non-LFE channels before it.\<close>

definition chan_rank :: "Channel list \<Rightarrow> nat \<Rightarrow> nat" where
  "chan_rank chs i = count_nonLFE (take i chs)"

text \<open>
  \<open>layout_ok\<close> and \<open>bufs_after\<close> are the same for the first \<open>m\<close> channels of the layout:
  every non-LFE channel among them stays inside its valid ranges, and a buffer \<open>B\<close> has
  become \<open>bufs_after \<dots> m B\<close>.
\<close>

definition layout_ok ::
  "Channel list \<Rightarrow> fp list \<Rightarrow> fp list \<Rightarrow> fp list \<Rightarrow> int \<Rightarrow> 32 word \<Rightarrow> 32 word \<Rightarrow> nat
     \<Rightarrow> fp list list \<times> fp list list \<Rightarrow> bool" where
  "layout_ok chs gains lastGains pIn nInterpSamples nSamples nOffset m bufs =
     (\<forall>i < m. \<not> isLFE (chs ! i) \<longrightarrow>
        channel_ok gains lastGains pIn nInterpSamples nSamples nOffset i (chan_rank chs i) bufs)"

definition bufs_after ::
  "Channel list \<Rightarrow> fp list \<Rightarrow> fp list \<Rightarrow> fp list \<Rightarrow> int \<Rightarrow> 32 word \<Rightarrow> 32 word \<Rightarrow> fp \<Rightarrow> nat
     \<Rightarrow> fp list list \<Rightarrow> fp list list" where
  "bufs_after chs gains lastGains pIn nInterpSamples nSamples nOffset coeff m B =
     map (\<lambda>i. if i < m \<and> \<not> isLFE (chs ! i)
               then channel_row gains lastGains pIn nInterpSamples nSamples nOffset coeff
                      (chan_rank chs i) (B ! i)
               else B ! i) [0..<length B]"

text \<open>The power summation for channel \<open>i\<close> stays inside the vectors for the first \<open>m\<close> positions.\<close>

definition power_ok :: "fp list \<Rightarrow> fp list list \<Rightarrow> nat \<Rightarrow> nat \<Rightarrow> bool" where
  "power_ok ws G i m = (\<forall>j < m. j < length ws \<and> j < length G \<and> i < length (G ! j))"

text \<open>
  The stored gains are current: they are the gains that lines 66 to 91 compute for the
  stored metadata.
\<close>

definition gains_current :: "('cl, 'ze) Collaborators \<Rightarrow> ('cl, 'ze) Panner \<Rightarrow> bool" where
  "gains_current X p = (recomputed_gains X (m_nCh p) (m_metadata p) = Some (m_gains p))"

text \<open>
  The gain on sample \<open>iSample\<close> for the gain index \<open>iCh\<close>: the gain of line 120 in the
  first loop, the gain of line 126 in the second.
\<close>

definition applied_gain :: "fp list \<Rightarrow> fp list \<Rightarrow> int \<Rightarrow> nat \<Rightarrow> int \<Rightarrow> fp" where
  "applied_gain gains lastGains nInterpSamples iCh iSample =
     (if iSample < nInterpSamples
      then interp_gain (deltaCoeff nInterpSamples) (gains ! iCh) (lastGains ! iCh) iSample
      else gains ! iCh)"

section \<open>Example inputs\<close>

text \<open>
  Collaborators for a layout of two loudspeakers: a source left of the centre goes to the
  first one, any other source to the second; no channel lock and no zone exclusion. The
  geometry functions only rename the coordinates and the rotation is the identity, so
  that the diverged positions keep their azimuth offsets.
\<close>

definition X_ex :: "(unit, unit) Collaborators" where
  "X_ex = \<lparr> CartesianToPolar = (\<lambda>c. PolarPosition (cart_x c) (cart_y c) (cart_z c)),
            PolarToCartesian = (\<lambda>p. CartesianPosition (azimuth p) (elevation p) (distance p)),
            getRotationMatrix = (\<lambda>yaw pitch roll k. if k = 0 \<or> k = 4 \<or> k = 8 then 1 else 0),
            CalculateGains = (\<lambda>pos. case azimuth pos of
                                 Fin a \<Rightarrow> if 0 < a then [1, 0] else [0, 1]
                               | _ \<Rightarrow> [0, 0]),
            channelLock_handle = (\<lambda>request direction. direction),
            zoneExclusion_handle = (\<lambda>request gains. gains) \<rparr>"

text \<open>Metadata with the azimuth, the divergence value and the jump position given.\<close>

definition md_ex :: "fp \<Rightarrow> fp \<Rightarrow> bool \<Rightarrow> 32 word \<Rightarrow> (unit, unit) ObjectMetadata" where
  "md_ex az dv fl len =
     \<lparr> cartesian = False,
       cartesianPosition = CartesianPosition 0 1 0,
       polarPosition = PolarPosition az 0 1,
       objectDivergence = ObjectDivergence dv (Fin 45),
       channelLock = (),
       zoneExclusionPolar = (),
       gain = 1,
       diffuse = 0,
       jumpPosition = \<lparr> flag = fl, interpolationLength = len \<rparr> \<rparr>"

definition stereo :: Layout where
  "stereo = \<lparr> channels = [\<lparr> isLFE = False \<rparr>, \<lparr> isLFE = False \<rparr>] \<rparr>"

text \<open>Two loudspeakers with a subwoofer between them.\<close>

definition stereo_lfe :: Layout where
  "stereo_lfe = \<lparr> channels = [\<lparr> isLFE = False \<rparr>, \<lparr> isLFE = True \<rparr>, \<lparr> isLFE = False \<rparr>] \<rparr>"

text \<open>A panner that has processed a frame with the source on the right.\<close>

definition p_ex :: "(unit, unit) Panner" where
  "p_ex = \<lparr> m_layout = stereo, m_nCh = 2, m_gains = [0, 1],
            m_metadata = md_ex (Fin (- 30)) 0 False 0, m_bFirstFrame = False \<rparr>"

text \<open>The same for the layout with the subwoofer.\<close>

definition p_lfe :: "(unit, unit) Panner" where
  "p_lfe = \<lparr> m_layout = stereo_lfe, m_nCh = 2, m_gains = [0, 1],
             m_metadata = md_ex (Fin (- 30)) 0 False 0, m_bFirstFrame = False \<rparr>"

section \<open>Sums of floating-point values\<close>

text \<open>Addition is associative and commutative with the unit 0, so that sums can be written.\<close>

lemma fp_add_assoc: "u + v + w = u + (v + w)" for u v w :: fp
proof (cases u)
  case (Fin x)
  then show ?thesis by (cases v; cases w) simp_all
next
  case PInf
  then show ?thesis by (cases v; cases w) simp_all
next
  case NInf
  then show ?thesis by (cases v; cases w) simp_all
next
  case NaN
  then show ?thesis by simp
qed

lemma fp_add_commute: "u + v = v + u" for u v :: fp
  by (cases u; cases v) simp_all

lemma fp_add_zero: "0 + u = u" for u :: fp
  unfolding zero_fp_def by (cases u) simp_all

instance fp :: comm_monoid_add
  by standard (fact fp_add_assoc fp_add_commute fp_add_zero)+

section \<open>Lemmas about the loops\<close>

lemmas fp_defs = zero_fp_def one_fp_def minus_fp_def float_of_int_def

lemma length_add_at [simp]: "length (add_at row k v) = length row"
  by (simp add: add_at_def)

lemma length_row_after [simp]: "length (row_after sd off c ss row) = length row"
  unfolding row_after_def by (induction ss arbitrary: row) simp_all

lemma row_after_Nil [simp]: "row_after sd off c [] row = row"
  by (simp add: row_after_def)

lemma row_after_Cons:
  "row_after sd off c (s # ss) row = row_after sd off c ss (add_at row (sample_slot off s) (the (sd s) * c))"
  by (simp add: row_after_def)

lemma row_after_append:
  "row_after sd off c (ss @ ts) row = row_after sd off c ts (row_after sd off c ss row)"
  by (simp add: row_after_def)

lemma sample_body_eq:
  "sample_body sd off dc fc i s (D, F) =
     (case sd s of None \<Rightarrow> None
      | Some v \<Rightarrow>
         if i < length D \<and> sample_slot off s < length (D ! i)
            \<and> i < length F \<and> sample_slot off s < length (F ! i)
         then Some (D [i := add_at (D ! i) (sample_slot off s) (v * dc)],
                    F [i := add_at (F ! i) (sample_slot off s) (v * fc)])
         else None)"
  by (simp add: sample_body_def accumulate_def split: option.splits)

lemma sample_loop:
  "for_loop ss (sample_body sd off dc fc i) (D, F) =
     (if samples_ok sd off ss i (D, F)
      then Some (D [i := row_after sd off dc ss (D ! i)], F [i := row_after sd off fc ss (F ! i)])
      else None)"
proof (induction ss arbitrary: D F)
  case Nil
  show ?case by (simp add: samples_ok_def)
next
  case (Cons s ss)
  let ?k = "sample_slot off s"
  show ?case
  proof (cases "sd s")
    case None
    then show ?thesis by (simp add: sample_body_eq samples_ok_def)
  next
    case (Some v)
    show ?thesis
    proof (cases "i < length D \<and> ?k < length (D ! i) \<and> i < length F \<and> ?k < length (F ! i)")
      case False
      then have "sample_body sd off dc fc i s (D, F) = None"
        using Some by (simp add: sample_body_eq)
      moreover have "\<not> samples_ok sd off (s # ss) i (D, F)"
        using False by (auto simp add: samples_ok_def)
      ultimately show ?thesis by simp
    next
      case True
      let ?D1 = "D [i := add_at (D ! i) ?k (v * dc)]"
      let ?F1 = "F [i := add_at (F ! i) ?k (v * fc)]"
      have step: "sample_body sd off dc fc i s (D, F) = Some (?D1, ?F1)"
        using True Some by (simp add: sample_body_eq)
      have ok: "samples_ok sd off (s # ss) i (D, F) = samples_ok sd off ss i (?D1, ?F1)"
        using True Some by (auto simp add: samples_ok_def)
      have "for_loop (s # ss) (sample_body sd off dc fc i) (D, F)
              = for_loop ss (sample_body sd off dc fc i) (?D1, ?F1)"
        using step by simp
      also have "\<dots> = (if samples_ok sd off ss i (?D1, ?F1)
          then Some (?D1 [i := row_after sd off dc ss (?D1 ! i)], ?F1 [i := row_after sd off fc ss (?F1 ! i)])
          else None)"
        by (rule Cons.IH)
      also have "\<dots> = (if samples_ok sd off (s # ss) i (D, F)
          then Some (D [i := row_after sd off dc (s # ss) (D ! i)], F [i := row_after sd off fc (s # ss) (F ! i)])
          else None)"
        using True Some by (simp add: ok row_after_Cons)
      finally show ?thesis .
    qed
  qed
qed

lemma length_nth_update_row:
  "length r = length (xs ! i) \<Longrightarrow> length (xs [i := r] ! i) = length (xs ! i)"
  by (cases "i < length xs") (simp_all add: list_update_beyond)

lemma samples_ok_shape:
  "length D' = length D \<Longrightarrow> length F' = length F \<Longrightarrow>
   (i < length D \<Longrightarrow> length (D' ! i) = length (D ! i)) \<Longrightarrow>
   (i < length F \<Longrightarrow> length (F' ! i) = length (F ! i)) \<Longrightarrow>
   samples_ok sd off ss i (D', F') = samples_ok sd off ss i (D, F)"
  by (auto simp add: samples_ok_def)

lemma length_channel_row [simp]:
  "length (channel_row gains lastGains pIn n N off c iCh row) = length row"
  by (simp add: channel_row_def)

lemma apply_channel_eq:
  "apply_channel gains lastGains pIn n N off dc fc i iCh (D, F) =
     (if channel_ok gains lastGains pIn n N off i iCh (D, F)
      then Some (D [i := channel_row gains lastGains pIn n N off dc iCh (D ! i)],
                 F [i := channel_row gains lastGains pIn n N off fc iCh (F ! i)])
      else None)"
proof -
  let ?sd1 = "interp_sample gains lastGains pIn (deltaCoeff n) iCh"
  let ?sd2 = "steady_sample gains pIn iCh"
  let ?D1 = "D [i := row_after ?sd1 off dc (interp_range n) (D ! i)]"
  let ?F1 = "F [i := row_after ?sd1 off fc (interp_range n) (F ! i)]"
  have shape: "samples_ok ?sd2 off (steady_range n N) i (?D1, ?F1)
                 = samples_ok ?sd2 off (steady_range n N) i (D, F)"
    by (rule samples_ok_shape) (simp_all add: length_nth_update_row)
  have rowD: "?D1 [i := row_after ?sd2 off dc (steady_range n N) (?D1 ! i)]
                = D [i := channel_row gains lastGains pIn n N off dc iCh (D ! i)]"
    by (cases "i < length D") (simp_all add: channel_row_def list_update_beyond)
  have rowF: "?F1 [i := row_after ?sd2 off fc (steady_range n N) (?F1 ! i)]
                = F [i := channel_row gains lastGains pIn n N off fc iCh (F ! i)]"
    by (cases "i < length F") (simp_all add: channel_row_def list_update_beyond)
  show ?thesis
    unfolding apply_channel_def Let_def sample_loop channel_ok_def
    using shape rowD rowF by (simp add: sample_loop)
qed

lemma for_loop_append:
  "for_loop (xs @ ys) body s =
     (case for_loop xs body s of None \<Rightarrow> None | Some s' \<Rightarrow> for_loop ys body s')"
  by (induction xs arbitrary: s) (simp_all split: option.splits)

lemma chan_rank_0 [simp]: "chan_rank chs 0 = 0"
  by (simp add: chan_rank_def count_nonLFE_def)

lemma chan_rank_Suc:
  "m < length chs \<Longrightarrow>
   chan_rank chs (Suc m) = (if isLFE (chs ! m) then chan_rank chs m else Suc (chan_rank chs m))"
  by (simp add: chan_rank_def count_nonLFE_def take_Suc_conv_app_nth)

lemma length_bufs_after [simp]:
  "length (bufs_after chs gains lastGains pIn n N off c m B) = length B"
  by (simp add: bufs_after_def)

lemma bufs_after_0 [simp]: "bufs_after chs gains lastGains pIn n N off c 0 B = B"
  by (simp add: bufs_after_def map_nth)

lemma nth_bufs_after:
  "i < length B \<Longrightarrow>
   bufs_after chs gains lastGains pIn n N off c m B ! i =
     (if i < m \<and> \<not> isLFE (chs ! i)
      then channel_row gains lastGains pIn n N off c (chan_rank chs i) (B ! i)
      else B ! i)"
  by (simp add: bufs_after_def)

lemma length_nth_bufs_after:
  "i < length B \<Longrightarrow> length (bufs_after chs gains lastGains pIn n N off c m B ! i) = length (B ! i)"
  by (simp add: nth_bufs_after)

lemma channel_ok_bufs_after:
  "channel_ok gains' lastGains' pIn' n' N' off' i iCh
      (bufs_after chs gains lastGains pIn n N off dc m D,
       bufs_after chs gains lastGains pIn n N off fc m F)
   = channel_ok gains' lastGains' pIn' n' N' off' i iCh (D, F)"
proof -
  have a: "\<And>sd ss. samples_ok sd off' ss i
      (bufs_after chs gains lastGains pIn n N off dc m D,
       bufs_after chs gains lastGains pIn n N off fc m F) = samples_ok sd off' ss i (D, F)"
    by (rule samples_ok_shape) (simp_all add: length_nth_bufs_after)
  show ?thesis
    unfolding channel_ok_def a ..
qed

lemma bufs_after_Suc_LFE:
  "isLFE (chs ! m) \<Longrightarrow>
   bufs_after chs gains lastGains pIn n N off c (Suc m) B
     = bufs_after chs gains lastGains pIn n N off c m B"
  by (rule nth_equalityI) (auto simp add: nth_bufs_after less_Suc_eq)

lemma bufs_after_Suc_nonLFE:
  "\<not> isLFE (chs ! m) \<Longrightarrow>
   bufs_after chs gains lastGains pIn n N off c (Suc m) B
     = (bufs_after chs gains lastGains pIn n N off c m B)
         [m := channel_row gains lastGains pIn n N off c (chan_rank chs m)
                 (bufs_after chs gains lastGains pIn n N off c m B ! m)]"
proof (rule nth_equalityI)
  show "length (bufs_after chs gains lastGains pIn n N off c (Suc m) B)
      = length ((bufs_after chs gains lastGains pIn n N off c m B)
         [m := channel_row gains lastGains pIn n N off c (chan_rank chs m)
                 (bufs_after chs gains lastGains pIn n N off c m B ! m)])"
    by simp
next
  fix i
  assume "i < length (bufs_after chs gains lastGains pIn n N off c (Suc m) B)"
  then have i: "i < length B" by simp
  assume m: "\<not> isLFE (chs ! m)"
  show "bufs_after chs gains lastGains pIn n N off c (Suc m) B ! i
      = (bufs_after chs gains lastGains pIn n N off c m B)
         [m := channel_row gains lastGains pIn n N off c (chan_rank chs m)
                 (bufs_after chs gains lastGains pIn n N off c m B ! m)] ! i"
  proof (cases "i = m")
    case True
    then show ?thesis using i m by (simp add: nth_bufs_after)
  next
    case False
    then show ?thesis using i m by (auto simp add: nth_bufs_after less_Suc_eq)
  qed
qed

lemma channel_body_eq:
  "channel_body chs gains lastGains pIn n N off dc fc i ((D, F), iCh) =
     (if isLFE (chs ! i) then Some ((D, F), iCh)
      else if channel_ok gains lastGains pIn n N off i iCh (D, F)
      then Some ((D [i := channel_row gains lastGains pIn n N off dc iCh (D ! i)],
                  F [i := channel_row gains lastGains pIn n N off fc iCh (F ! i)]), Suc iCh)
      else None)"
  by (simp add: channel_body_def apply_channel_eq)

lemma layout_ok_Suc:
  "layout_ok chs gains lastGains pIn n N off (Suc m) bufs =
     (layout_ok chs gains lastGains pIn n N off m bufs \<and>
      (\<not> isLFE (chs ! m) \<longrightarrow> channel_ok gains lastGains pIn n N off m (chan_rank chs m) bufs))"
  by (auto simp add: layout_ok_def less_Suc_eq)

lemma channel_loop:
  "m \<le> length chs \<Longrightarrow>
   for_loop [0..<m] (channel_body chs gains lastGains pIn n N off dc fc) ((D, F), 0) =
     (if layout_ok chs gains lastGains pIn n N off m (D, F)
      then Some ((bufs_after chs gains lastGains pIn n N off dc m D,
                  bufs_after chs gains lastGains pIn n N off fc m F), chan_rank chs m)
      else None)"
proof (induction m)
  case 0
  show ?case by (simp add: layout_ok_def)
next
  case (Suc m)
  then have IH: "for_loop [0..<m] (channel_body chs gains lastGains pIn n N off dc fc) ((D, F), 0) =
     (if layout_ok chs gains lastGains pIn n N off m (D, F)
      then Some ((bufs_after chs gains lastGains pIn n N off dc m D,
                  bufs_after chs gains lastGains pIn n N off fc m F), chan_rank chs m)
      else None)" and m: "m < length chs"
    by simp_all
  show ?case
  proof (cases "layout_ok chs gains lastGains pIn n N off m (D, F)")
    case False
    then show ?thesis
      by (simp add: for_loop_append IH layout_ok_Suc)
  next
    case True
    show ?thesis
    proof (cases "isLFE (chs ! m)")
      case LFE: True
      then show ?thesis
        using True m
        by (simp add: for_loop_append IH layout_ok_Suc channel_body_eq chan_rank_Suc
            bufs_after_Suc_LFE)
    next
      case nonLFE: False
      then show ?thesis
        using True m
        by (simp add: for_loop_append IH layout_ok_Suc channel_body_eq chan_rank_Suc
            channel_ok_bufs_after bufs_after_Suc_nonLFE)
    qed
  qed
qed

lemma apply_gains_eq:
  "apply_gains chs gains lastGains pIn n N off dc fc (D, F) =
     (if layout_ok chs gains lastGains pIn n N off (length chs) (D, F)
      then Some (bufs_after chs gains lastGains pIn n N off dc (length chs) D,
                 bufs_after chs gains lastGains pIn n N off fc (length chs) F)
      else None)"
  by (simp add: apply_gains_def channel_loop)

lemma ProcessAccumul_eq:
  "ProcessAccumul X p metadata pIn D F N off =
     (case gains_and_interp X p metadata of
        None \<Rightarrow> None
      | Some (gains, n) \<Rightarrow>
          if layout_ok (channels (m_layout p)) gains (m_gains p) pIn n N off
               (length (channels (m_layout p))) (D, F)
          then Some (p \<lparr> m_gains := gains, m_metadata := metadata, m_bFirstFrame := False \<rparr>,
                     bufs_after (channels (m_layout p)) gains (m_gains p) pIn n N off
                       (fsqrt (1 - diffuse metadata)) (length (channels (m_layout p))) D,
                     bufs_after (channels (m_layout p)) gains (m_gains p) pIn n N off
                       (fsqrt (diffuse metadata)) (length (channels (m_layout p))) F)
          else None)"
  by (simp add: ProcessAccumul_def apply_gains_eq Let_def split: option.splits)

lemma row_after_other:
  "k \<notin> sample_slot off ` set ss \<Longrightarrow> row_after sd off c ss row ! k = row ! k"
proof (induction ss arbitrary: row)
  case Nil
  show ?case by simp
next
  case (Cons s ss)
  then show ?case by (simp add: row_after_Cons add_at_def)
qed

lemma row_after_at:
  "distinct ss \<Longrightarrow> inj_on (sample_slot off) (set ss) \<Longrightarrow> s \<in> set ss \<Longrightarrow>
   sample_slot off s < length row \<Longrightarrow>
   row_after sd off c ss row ! sample_slot off s = row ! sample_slot off s + the (sd s) * c"
proof (induction ss arbitrary: row)
  case Nil
  then show ?case by simp
next
  case (Cons t ss)
  show ?case
  proof (cases "s = t")
    case True
    have "sample_slot off t \<notin> sample_slot off ` set ss"
      using Cons.prems(1,2) by auto
    then show ?thesis
      using True Cons.prems(4) by (simp add: row_after_Cons row_after_other add_at_def)
  next
    case False
    then have s: "s \<in> set ss" using Cons.prems(3) by simp
    have ne: "sample_slot off t \<noteq> sample_slot off s"
      using Cons.prems(2,3) False by (auto simp add: inj_on_def)
    have "row_after sd off c ss (add_at row (sample_slot off t) (the (sd t) * c)) ! sample_slot off s
            = add_at row (sample_slot off t) (the (sd t) * c) ! sample_slot off s + the (sd s) * c"
      using Cons.prems s by (intro Cons.IH) simp_all
    then show ?thesis
      using ne by (simp add: row_after_Cons add_at_def)
  qed
qed

lemma sample_slot_inj:
  "- (2 ^ 31) \<le> s \<Longrightarrow> s < 2 ^ 31 \<Longrightarrow> - (2 ^ 31) \<le> t \<Longrightarrow> t < 2 ^ 31 \<Longrightarrow>
   sample_slot off s = sample_slot off t \<Longrightarrow> s = t"
proof -
  assume b: "- (2 ^ 31) \<le> s" "s < 2 ^ 31" "- (2 ^ 31) \<le> t" "t < 2 ^ 31"
  assume "sample_slot off s = sample_slot off t"
  then have "(word_of_int s + off :: 32 word) = word_of_int t + off"
    by (simp add: sample_slot_def word_unat_eq_iff)
  then have "(word_of_int s :: 32 word) = word_of_int t"
    by simp
  then have "signed_take_bit 31 s = signed_take_bit 31 t"
    by (simp add: word_of_int_eq_iff signed_take_bit_eq_iff_take_bit_eq)
  moreover have "signed_take_bit 31 s = s" "signed_take_bit 31 t = t"
    using b by (simp_all add: signed_take_bit_int_eq_self)
  ultimately show "s = t" by simp
qed

section \<open>Evaluation on the example inputs\<close>

lemma upt_small: "[0..<1] = [0]" "[0..<2] = [0, 1]" "[0..<3] = [0, 1, 2]"
  by (simp_all add: upt_rec)

lemmas model_defs =
  gains_and_interp_def recomputed_gains_def summed_gains_def panning_direction_def
  divergedPositionsAndGains_def gains_for_positions_def power_summation_def power_sum_def
  gains_for_positions_body_def power_sum_body_def power_summation_body_def
  rotated_polar_def directionRotated_def vec_at_def ptr_at_def Let_def

lemmas apply_defs =
  apply_gains_def channel_body_def apply_channel_def sample_body_def
  interp_sample_def steady_sample_def interp_gain_def deltaCoeff_def accumulate_def add_at_def
  interp_range_def steady_range_def vec_at_def ptr_at_def Let_def sample_slot_def

lemmas ex_defs = X_ex_def md_ex_def p_ex_def p_lfe_def stereo_def stereo_lfe_def

section \<open>The divergence splitter\<close>

text \<open>
  C6. With the divergence value zero, \<open>divergedPositionsAndGains\<close> returns the one
  direction it was given, unchanged, and the one weight 1.
\<close>

theorem divergedPositionsAndGains_zero:
  "divergedPositionsAndGains X (ObjectDivergence 0 azRange) polarDirection
     = ([polarDirection], [1])"
  by (simp add: divergedPositionsAndGains_def fp_defs)

text \<open>The rounding moves a number by half the spacing at most.\<close>

lemma round_even_error: "\<bar>of_int (round_even m) - m\<bar> \<le> 1 / 2"
proof -
  have "of_int \<lfloor>m\<rfloor> \<le> m" "m < of_int \<lfloor>m\<rfloor> + 1" by linarith+
  then show ?thesis
    by (auto simp add: round_even_def Let_def)
qed

lemma ulp_double_pos: "0 < ulp_double y"
  by (simp add: ulp_double_def)

lemma round_double_error: "\<bar>round_double y - y\<bar> \<le> ulp_double y / 2"
proof (cases "y = 0")
  case True
  then show ?thesis using ulp_double_pos [of y] by (simp add: round_double_def)
next
  case False
  let ?U = "ulp_double y"
  have U: "0 < ?U" by (rule ulp_double_pos)
  have "round_double y - y = (of_int (round_even (y / ?U)) - y / ?U) * ?U"
    using False U by (simp add: round_double_def field_simps)
  then have "\<bar>round_double y - y\<bar> = \<bar>of_int (round_even (y / ?U)) - y / ?U\<bar> * ?U"
    using U by (simp add: abs_mult)
  also have "\<dots> \<le> (1 / 2) * ?U"
    using U round_even_error [of "y / ?U"] by (intro mult_right_mono) simp_all
  finally show ?thesis by simp
qed

lemma ulp_double_le:
  assumes "y \<noteq> 0" and "\<bar>y\<bar> < 4"
  shows "ulp_double y \<le> 2 powr (- 51)"
proof -
  have "log 2 \<bar>y\<bar> < log 2 4"
    using assms by (intro log_less) simp_all
  also have "log 2 4 = 2"
    using log_pow_cancel [of 2 2] by simp
  finally have "\<lfloor>log 2 \<bar>y\<bar>\<rfloor> < 2" by (simp add: floor_less_iff)
  then have "max \<lfloor>log 2 \<bar>y\<bar>\<rfloor> (- 1022) - 52 \<le> - 51" by simp
  then have "real_of_int (max \<lfloor>log 2 \<bar>y\<bar>\<rfloor> (- 1022) - 52) \<le> - 51"
    by linarith
  then show ?thesis
    unfolding ulp_double_def by (intro powr_mono) simp_all
qed

text \<open>The rounding of a number whose binary exponent \<open>e\<close> is known.\<close>

lemma round_double_at:
  assumes "2 powr of_int e \<le> \<bar>y\<bar>" and "\<bar>y\<bar> < 2 powr of_int (e + 1)" and "- 1022 \<le> e"
  shows "round_double y
           = of_int (round_even (y / 2 powr of_int (e - 52))) * 2 powr of_int (e - 52)"
proof -
  have pos: "0 < \<bar>y\<bar>"
    using assms(1) by (rule less_le_trans [rotated]) simp
  have "of_int e \<le> log 2 \<bar>y\<bar>"
    using assms(1) pos by (simp add: le_log_iff)
  moreover have "log 2 \<bar>y\<bar> < of_int e + 1"
    using assms(2) pos by (simp add: log_less_iff)
  ultimately have "\<lfloor>log 2 \<bar>y\<bar>\<rfloor> = e"
    by (intro floor_unique) simp_all
  then have "ulp_double y = 2 powr of_int (e - 52)"
    using assms(3) by (simp add: ulp_double_def max_def)
  then show ?thesis
    using pos by (simp add: round_double_def)
qed

lemma round_double_near:
  assumes "\<bar>y\<bar> < 4"
  shows "\<bar>round_double y - y\<bar> \<le> 1 / 2 ^ 52"
proof (cases "y = 0")
  case True
  then show ?thesis by (simp add: round_double_def)
next
  case False
  have "(2::real) powr (- 51) = 1 / 2 ^ 51"
    by (simp add: powr_minus_divide)
  then have "ulp_double y / 2 \<le> 1 / 2 ^ 52"
    using ulp_double_le [OF False assms] by simp
  then show ?thesis
    using round_double_error [of y] by linarith
qed

lemma div_bound:
  fixes n b :: real
  assumes "\<bar>n\<bar> \<le> k * (3 / 4)" and "3 / 4 \<le> b"
  shows "\<bar>n / b\<bar> \<le> k"
proof -
  have b: "0 < b" using assms(2) by simp
  have k: "0 \<le> k" using assms(1) abs_ge_zero [of n] by (simp add: zero_le_mult_iff)
  have "\<bar>n\<bar> \<le> k * b"
    using assms k mult_left_mono [of "3 / 4" b k] by linarith
  then show ?thesis
    using b by (simp add: pos_divide_le_eq)
qed

lemma abs_three_terms:
  fixes p q r E :: real
  assumes "\<bar>p\<bar> \<le> E" and "\<bar>q\<bar> \<le> E" and "\<bar>r\<bar> \<le> 3 * E"
  shows "\<bar>p + 2 * q + r\<bar> \<le> 8 * E"
  using assms by linarith

lemma abs_two_terms:
  fixes p r E :: real
  assumes "\<bar>p\<bar> \<le> E" and "\<bar>r\<bar> \<le> 3 * E"
  shows "\<bar>p + r\<bar> \<le> 8 * E"
  using assms by linarith

lemma abs_widen:
  fixes t E :: real
  assumes "\<bar>t\<bar> \<le> 1 * E" and "0 < E"
  shows "\<bar>t\<bar> \<le> 3 * E * (3 / 4)"
  using assms by linarith

lemma abs_diff_widen:
  fixes t u E :: real
  assumes "\<bar>u\<bar> \<le> E" and "\<bar>t\<bar> \<le> 1 * E" and "0 < E"
  shows "\<bar>u - t\<bar> \<le> 3 * E * (3 / 4)"
  using assms by linarith

text \<open>
  The rounded weights are within \<open>1 / 2 ^ 49\<close> of the formulas, and so is their sum of 1.
\<close>

lemma diverged_gains_double_near:
  assumes x: "0 < x" "x \<le> 1"
  shows "\<exists>c s. diverged_gains_double x = [c, s, s]
           \<and> \<bar>c - (1 - x) / (1 + x)\<bar> \<le> 1 / 2 ^ 49
           \<and> \<bar>s - x / (1 + x)\<bar> \<le> 1 / 2 ^ 49
           \<and> \<bar>c + s + s - 1\<bar> \<le> 1 / 2 ^ 49"
proof -
  define E :: real where "E = 1 / 2 ^ 52"
  define a where "a = round_double (1 - x)"
  define b where "b = round_double (x + 1)"
  define c where "c = round_double (a / b)"
  define s where "s = round_double (x / b)"
  have E: "0 < E" "E \<le> 1 / 4" "8 * E = 1 / 2 ^ 49" by (simp_all add: E_def)
  have ea: "\<bar>a - (1 - x)\<bar> \<le> E"
    unfolding a_def E_def using x by (intro round_double_near) simp
  have eb: "\<bar>b - (x + 1)\<bar> \<le> E"
    unfolding b_def E_def using x by (intro round_double_near) simp
  have b: "3 / 4 \<le> b" "0 < b" using eb E(1,2) x by linarith+
  have a: "\<bar>a\<bar> \<le> 5 / 4" using ea E(1,2) x by linarith
  have "\<bar>a / b\<bar> \<le> 2"
    using a b(1) by (intro div_bound) simp_all
  then have ec: "\<bar>c - a / b\<bar> \<le> E"
    unfolding c_def E_def by (intro round_double_near) simp
  have "\<bar>x / b\<bar> \<le> 2"
    using x b(1) by (intro div_bound) simp_all
  then have es: "\<bar>s - x / b\<bar> \<le> E"
    unfolding s_def E_def by (intro round_double_near) simp
  let ?da = "a - (1 - x)" and ?db = "b - (x + 1)"
  have x1: "0 < 1 + x" "1 \<le> 1 + x" using x by simp_all
  have sum: "c + s + s - 1 = (c - a / b) + 2 * (s - x / b) + (?da - ?db) / b"
    using b(2) by (simp add: field_simps)
  have "\<bar>(?da - ?db) / b\<bar> \<le> 3 * E"
  proof (rule div_bound)
    have "\<bar>?db\<bar> \<le> 1 * E" using eb by simp
    with ea show "\<bar>?da - ?db\<bar> \<le> 3 * E * (3 / 4)"
      using E(1) by (rule abs_diff_widen)
  qed (rule b(1))
  then have bsum: "\<bar>c + s + s - 1\<bar> \<le> 8 * E"
    unfolding sum using ec es by (intro abs_three_terms)
  have sd: "x / b - x / (1 + x) = (- x * ?db / (1 + x)) / b"
    using b(2) x1(1) by (simp add: field_simps)
  have xr: "\<bar>x / (1 + x)\<bar> \<le> 1"
    using x x1 by simp
  have "\<bar>- x * ?db / (1 + x)\<bar> = \<bar>x / (1 + x)\<bar> * \<bar>?db\<bar>"
    by (simp add: abs_mult)
  also have "\<dots> \<le> 1 * E"
    using xr eb by (intro mult_mono) simp_all
  finally have n1: "\<bar>- x * ?db / (1 + x)\<bar> \<le> 1 * E" .
  have "\<bar>(- x * ?db / (1 + x)) / b\<bar> \<le> 3 * E"
  proof (rule div_bound)
    show "\<bar>- x * ?db / (1 + x)\<bar> \<le> 3 * E * (3 / 4)"
      using n1 E(1) by (rule abs_widen)
  qed (rule b(1))
  then have "\<bar>(s - x / b) + (- x * ?db / (1 + x)) / b\<bar> \<le> 8 * E"
    using es by (intro abs_two_terms)
  then have bs: "\<bar>s - x / (1 + x)\<bar> \<le> 8 * E"
    unfolding sd [symmetric] by simp
  have cd: "a / b - (1 - x) / (1 + x) = (?da - (1 - x) * ?db / (1 + x)) / b"
    using b(2) x1(1) by (simp add: field_simps)
  have xr': "\<bar>(1 - x) / (1 + x)\<bar> \<le> 1"
    using x x1 by simp
  have "\<bar>(1 - x) * ?db / (1 + x)\<bar> = \<bar>(1 - x) / (1 + x)\<bar> * \<bar>?db\<bar>"
    by (simp add: abs_mult)
  also have "\<dots> \<le> 1 * E"
    using xr' eb by (intro mult_mono) simp_all
  finally have n2: "\<bar>(1 - x) * ?db / (1 + x)\<bar> \<le> 1 * E" .
  have "\<bar>(?da - (1 - x) * ?db / (1 + x)) / b\<bar> \<le> 3 * E"
  proof (rule div_bound)
    show "\<bar>?da - (1 - x) * ?db / (1 + x)\<bar> \<le> 3 * E * (3 / 4)"
      using ea n2 E(1) by (rule abs_diff_widen)
  qed (rule b(1))
  then have "\<bar>(c - a / b) + (?da - (1 - x) * ?db / (1 + x)) / b\<bar> \<le> 8 * E"
    using ec by (intro abs_two_terms)
  then have bc: "\<bar>c - (1 - x) / (1 + x)\<bar> \<le> 8 * E"
    unfolding cd [symmetric] by simp
  have "diverged_gains_double x = [c, s, s]"
    by (simp add: diverged_gains_double_def Let_def a_def b_def c_def s_def)
  then show ?thesis
    using bc bs bsum unfolding E(3) by blast
qed

lemmas round_eval = powr_minus_divide round_even_def Let_def

text \<open>The rounded weights at the \<^verbatim>\<open>double\<close> nearest to 0.2, and at 1.\<close>

lemma round_double_fifth:
  "round_double (1 / 5) = 3602879701896397 / 18014398509481984"
  by (subst round_double_at [where e = "- 3"]) (simp_all add: round_eval)

lemma diverged_gains_double_fifth:
  "diverged_gains_double (3602879701896397 / 18014398509481984)
     = [3002399751580331 / 4503599627370496,
        3002399751580331 / 18014398509481984,
        3002399751580331 / 18014398509481984]"
proof -
  have a: "round_double (1 - 3602879701896397 / 18014398509481984)
             = 3602879701896397 / 4503599627370496"
    by (subst round_double_at [where e = "- 1"]) (simp_all add: round_eval)
  have b: "round_double (3602879701896397 / 18014398509481984 + 1)
             = 5404319552844595 / 4503599627370496"
    by (subst round_double_at [where e = 0]) (simp_all add: round_eval)
  have c: "round_double (3602879701896397 / 4503599627370496
                          / (5404319552844595 / 4503599627370496))
             = 3002399751580331 / 4503599627370496"
    by (subst round_double_at [where e = "- 1"]) (simp_all add: round_eval)
  have s: "round_double (3602879701896397 / 18014398509481984
                          / (5404319552844595 / 4503599627370496))
             = 3002399751580331 / 18014398509481984"
    by (subst round_double_at [where e = "- 3"]) (simp_all add: round_eval)
  show ?thesis
    unfolding diverged_gains_double_def Let_def a b c s ..
qed

lemma diverged_gains_double_one: "diverged_gains_double 1 = [0, 1 / 2, 1 / 2]"
proof -
  have z: "round_double 0 = 0" by (simp add: round_double_def)
  have b: "round_double 2 = 2"
    by (subst round_double_at [where e = 1]) (simp_all add: round_eval)
  have h: "round_double (1 / 2) = 1 / 2"
    by (subst round_double_at [where e = "- 1"]) (simp_all add: round_eval)
  show ?thesis
    by (simp add: diverged_gains_double_def Let_def z b h)
qed

text \<open>
  C5, as stated, fails. At the divergence value 0.2, which as a \<^verbatim>\<open>double\<close> is
  3602879701896397 / 2 ^ 54, lines 156 to 159 give the weights 0.6666666666666667 and
  0.16666666666666669 twice. Their sum is \<open>1 + 1 / 2 ^ 53\<close> on the reals, and
  \<open>1 + 1 / 2 ^ 52\<close>, that is 1.0000000000000002, when it is added up in \<^verbatim>\<open>double\<close>: not 1.
\<close>

theorem weights_sum_counterexample:
  "round_double (1 / 5) = 3602879701896397 / 18014398509481984
   \<and> diverged_gains_double (3602879701896397 / 18014398509481984)
       = [3002399751580331 / 4503599627370496,
          3002399751580331 / 18014398509481984,
          3002399751580331 / 18014398509481984]
   \<and> (3002399751580331 / 4503599627370496 + 3002399751580331 / 18014398509481984
        + 3002399751580331 / 18014398509481984 :: real)
       = 1 + 1 / 9007199254740992
   \<and> (3002399751580331 / 4503599627370496 + 3002399751580331 / 18014398509481984
        + 3002399751580331 / 18014398509481984 :: real)
       \<noteq> 1
   \<and> round_double
        (round_double (3002399751580331 / 4503599627370496
                        + 3002399751580331 / 18014398509481984)
         + 3002399751580331 / 18014398509481984)
       = 1 + 1 / 4503599627370496"
proof -
  have p: "round_double (3002399751580331 / 4503599627370496
                          + 3002399751580331 / 18014398509481984)
             = 7505999378950828 / 9007199254740992"
    by (subst round_double_at [where e = "- 1"]) (simp_all add: round_eval)
  have q: "round_double (7505999378950828 / 9007199254740992
                          + 3002399751580331 / 18014398509481984)
             = 1 + 1 / 4503599627370496"
    by (subst round_double_at [where e = 0]) (simp_all add: round_eval)
  show ?thesis
    unfolding p q using round_double_fifth diverged_gains_double_fifth by simp
qed

text \<open>
  C5, amended. For a divergence value \<open>x\<close> with \<open>0 < x \<le> 1\<close> the splitter returns three
  positions and three weights, the second and the third equal. The weights are the
  formulas \<open>(1 - x) / (1 + x)\<close> and \<open>x / (1 + x)\<close>, whose sum on the reals is 1; as
  the code computes them in \<^verbatim>\<open>double\<close>, each weight is within \<open>1 / 2 ^ 49\<close> of its
  formula and their sum within \<open>1 / 2 ^ 49\<close> of 1. At \<open>x = 1\<close> the same lines give the
  weights 0, 1/2, 1/2, without rounding: the value 1 has no branch of its own.
\<close>

theorem divergedPositionsAndGains_weights:
  assumes "0 < x" and "x \<le> 1"
  shows "(let r = divergedPositionsAndGains X (ObjectDivergence (Fin x) azRange) polarDirection;
              centerWeight = (1 - x) / (1 + x);
              sideWeight = x / (1 + x);
              ws = diverged_gains_double x
          in length (fst r) = 3
             \<and> snd r = [Fin centerWeight, Fin sideWeight, Fin sideWeight]
             \<and> centerWeight + sideWeight + sideWeight = 1
             \<and> length ws = 3 \<and> ws ! 1 = ws ! 2
             \<and> \<bar>ws ! 0 - centerWeight\<bar> \<le> 1 / 2 ^ 49
             \<and> \<bar>ws ! 1 - sideWeight\<bar> \<le> 1 / 2 ^ 49
             \<and> \<bar>ws ! 0 + ws ! 1 + ws ! 2 - 1\<bar> \<le> 1 / 2 ^ 49
             \<and> (x = 1 \<longrightarrow> snd r = [0, Fin (1 / 2), Fin (1 / 2)] \<and> ws = [0, 1 / 2, 1 / 2]))"
proof -
  have nz: "1 + x \<noteq> 0" using assms by simp
  have "(1 - x) / (1 + x) + x / (1 + x) + x / (1 + x) = (1 + x) / (1 + x)"
    by (simp add: add_divide_distrib [symmetric])
  then have sum: "(1 - x) / (1 + x) + x / (1 + x) + x / (1 + x) = 1"
    using nz by simp
  from diverged_gains_double_near [OF assms] obtain c s
    where ws: "diverged_gains_double x = [c, s, s]"
      and near: "\<bar>c - (1 - x) / (1 + x)\<bar> \<le> 1 / 2 ^ 49"
        "\<bar>s - x / (1 + x)\<bar> \<le> 1 / 2 ^ 49" "\<bar>c + s + s - 1\<bar> \<le> 1 / 2 ^ 49"
    by blast
  have one: "x = 1 \<Longrightarrow> c = 0 \<and> s = 1 / 2"
    using ws diverged_gains_double_one by simp
  have exact: "length (fst (divergedPositionsAndGains X (ObjectDivergence (Fin x) azRange)
                   polarDirection)) = 3
      \<and> snd (divergedPositionsAndGains X (ObjectDivergence (Fin x) azRange) polarDirection)
          = [Fin ((1 - x) / (1 + x)), Fin (x / (1 + x)), Fin (x / (1 + x))]"
    using assms nz
    by (simp add: divergedPositionsAndGains_def fp_defs Let_def add.commute)
  show ?thesis
    unfolding Let_def ws
    using exact sum near one by (auto simp add: fp_defs)
qed

theorem divergedPositionsAndGains_weights_witness:
  "(0 :: real) < 1 \<and> (1 :: real) \<le> 1
   \<and> snd (divergedPositionsAndGains X_ex (ObjectDivergence (Fin 1) (Fin 45)) (PolarPosition 0 0 1))
       = [Fin 0, Fin (1 / 2), Fin (1 / 2)]
   \<and> diverged_gains_double 1 = [0, 1 / 2, 1 / 2]"
  using divergedPositionsAndGains_weights [of 1 X_ex "Fin 45" "PolarPosition 0 0 1"]
  by (simp add: Let_def fp_defs)

section \<open>The power summation\<close>

lemma gains_for_positions_body_eq:
  "gains_for_positions_body X diverged_positions iGain acc =
     (if iGain < length diverged_positions
      then Some (acc @ [CalculateGains X (diverged_positions ! iGain)]) else None)"
  by (simp add: gains_for_positions_body_def vec_at_def)

lemma power_sum_body_eq:
  "power_sum_body ws G i j g_tmp =
     (if j < length ws \<and> j < length G \<and> i < length (G ! j)
      then Some (g_tmp + ws ! j * G ! j ! i * G ! j ! i) else None)"
  by (simp add: power_sum_body_def vec_at_def)

lemma power_summation_body_eq:
  "power_summation_body ws G i gains =
     (case power_sum ws G i of None \<Rightarrow> None | Some g \<Rightarrow> Some (gains @ [g]))"
  by (simp add: power_summation_body_def)

lemma gains_for_positions_loop:
  "for_loop [0..<n] (gains_for_positions_body X diverged_positions) acc
   = (if n \<le> length diverged_positions
      then Some (acc @ map (CalculateGains X) (take n diverged_positions)) else None)"
proof (induction n)
  case 0
  show ?case by simp
next
  case (Suc n)
  have split: "[0..<Suc n] = [0..<n] @ [n]" by simp
  show ?case
    unfolding split for_loop_append Suc.IH
    by (simp add: gains_for_positions_body_eq take_Suc_conv_app_nth)
qed

lemma gains_for_positions_eq:
  "gains_for_positions X diverged_positions n =
     (if n \<le> length diverged_positions
      then Some (map (CalculateGains X) (take n diverged_positions)) else None)"
  unfolding gains_for_positions_def by (simp add: gains_for_positions_loop)

lemma power_sum_loop:
  "for_loop [0..<m] (power_sum_body ws G i) acc
   = (if power_ok ws G i m then Some (acc + (\<Sum>j < m. ws ! j * G ! j ! i * G ! j ! i)) else None)"
proof (induction m)
  case 0
  show ?case by (simp add: power_ok_def)
next
  case (Suc m)
  have ok: "power_ok ws G i (Suc m) = (power_ok ws G i m \<and> m < length ws \<and> m < length G \<and> i < length (G ! m))"
    by (auto simp add: power_ok_def less_Suc_eq)
  have split: "[0..<Suc m] = [0..<m] @ [m]" by simp
  show ?case
    unfolding split for_loop_append Suc.IH
    by (simp add: power_sum_body_eq ok add.assoc)
qed

lemma power_sum_eq:
  "power_sum ws G i =
     (if power_ok ws G i (length ws)
      then Some (fsqrt (\<Sum>j < length ws. ws ! j * G ! j ! i * G ! j ! i)) else None)"
  unfolding power_sum_def by (simp add: power_sum_loop)

lemma power_summation_loop:
  "for_loop [0..<n] (power_summation_body ws G) acc
   = (if \<forall>i < n. power_ok ws G i (length ws)
      then Some (acc @ map (\<lambda>i. fsqrt (\<Sum>j < length ws. ws ! j * G ! j ! i * G ! j ! i)) [0..<n])
      else None)"
proof (induction n)
  case 0
  show ?case by simp
next
  case (Suc n)
  have split: "[0..<Suc n] = [0..<n] @ [n]" by simp
  show ?case
    unfolding split for_loop_append Suc.IH
    by (auto simp add: power_summation_body_eq power_sum_eq less_Suc_eq)
qed

lemma power_summation_eq:
  "power_summation nCh ws G =
     (if \<forall>i < nCh. power_ok ws G i (length ws)
      then Some (map (\<lambda>i. fsqrt (\<Sum>j < length ws. ws ! j * G ! j ! i * G ! j ! i)) [0..<nCh])
      else None)"
  unfolding power_summation_def by (simp add: power_summation_loop)

lemma length_divergedPositionsAndGains:
  "length (fst (divergedPositionsAndGains X dv dir)) = length (snd (divergedPositionsAndGains X dv dir))"
  by (simp add: divergedPositionsAndGains_def Let_def)

lemma summed_gains_Some:
  assumes "summed_gains X nCh metadata = Some pre"
  shows "length pre = nCh"
    and "i < nCh \<Longrightarrow>
      pre ! i =
        (let r = divergedPositionsAndGains X (objectDivergence metadata) (panning_direction X metadata);
             blendWeights = snd r;
             gainForPos = map (CalculateGains X) (fst r)
         in fsqrt (\<Sum>j < length blendWeights.
                     blendWeights ! j * gainForPos ! j ! i * gainForPos ! j ! i))"
  using assms
  by (auto simp add: summed_gains_def Let_def gains_for_positions_eq power_summation_eq
      length_divergedPositionsAndGains split: if_splits)

text \<open>
  C2. When the metadata differ from the stored ones, the gain of every output channel
  \<open>i\<close> before the zone exclusion is the square root of the sum, over the diverged
  positions \<open>j\<close>, of the weight of \<open>j\<close> times the square of the gain that the gain
  calculator gives channel \<open>i\<close> for position \<open>j\<close>. The gains of the call are these
  gains after the zone exclusion, times the gain of the object.
\<close>

theorem power_summation_gain:
  assumes "metadata \<noteq> m_metadata p"
    and "gains_and_interp X p metadata = Some (gains, nInterpSamples)"
  shows "\<exists>pre. summed_gains X (m_nCh p) metadata = Some pre
           \<and> length pre = m_nCh p
           \<and> gains = map (\<lambda>g. g * gain metadata)
                        (zoneExclusion_handle X (zoneExclusionPolar metadata) pre)
           \<and> (\<forall>i < m_nCh p.
                pre ! i =
                  (let r = divergedPositionsAndGains X (objectDivergence metadata)
                             (panning_direction X metadata);
                       blendWeights = snd r;
                       gainForPos = map (CalculateGains X) (fst r)
                   in fsqrt (\<Sum>j < length blendWeights.
                        blendWeights ! j * gainForPos ! j ! i * gainForPos ! j ! i)))"
proof -
  from assms obtain pre where pre: "summed_gains X (m_nCh p) metadata = Some pre"
    and g: "gains = map (\<lambda>g. g * gain metadata)
                        (zoneExclusion_handle X (zoneExclusionPolar metadata) pre)"
    by (auto simp add: gains_and_interp_def recomputed_gains_def split: option.splits if_splits)
  show ?thesis
    using pre g summed_gains_Some [OF pre] by blast
qed

theorem power_summation_gain_witness:
  "md_ex (Fin 30) (Fin (1 / 3)) True 2 \<noteq> m_metadata p_ex
   \<and> gains_and_interp X_ex p_ex (md_ex (Fin 30) (Fin (1 / 3)) True 2)
       = Some ([Fin (1 / 2), Fin (sqrt 3 / 2)], 2)
   \<and> summed_gains X_ex (m_nCh p_ex) (md_ex (Fin 30) (Fin (1 / 3)) True 2)
       = Some [Fin (1 / 2), Fin (sqrt 3 / 2)]"
proof -
  have ne: "md_ex (Fin 30) (Fin (1 / 3)) True 2 \<noteq> m_metadata p_ex"
    by (simp add: ex_defs)
  have e: "gains_and_interp X_ex p_ex (md_ex (Fin 30) (Fin (1 / 3)) True 2)
             = Some ([Fin (1 / 2), Fin (sqrt 3 / 2)], 2)"
    by (simp add: model_defs ex_defs fp_defs upt_small real_sqrt_divide)
  from power_summation_gain [OF ne e] obtain pre where
    pre: "summed_gains X_ex (m_nCh p_ex) (md_ex (Fin 30) (Fin (1 / 3)) True 2) = Some pre"
    and g: "[Fin (1 / 2), Fin (sqrt 3 / 2)] =
              map (\<lambda>g. g * gain (md_ex (Fin 30) (Fin (1 / 3)) True 2))
                (zoneExclusion_handle X_ex
                   (zoneExclusionPolar (md_ex (Fin 30) (Fin (1 / 3)) True 2)) pre)"
    by auto
  have "summed_gains X_ex (m_nCh p_ex) (md_ex (Fin 30) (Fin (1 / 3)) True 2)
          = Some [Fin (1 / 2), Fin (sqrt 3 / 2)]"
    by (simp add: model_defs ex_defs fp_defs upt_small real_sqrt_divide)
  then show ?thesis using ne e pre by simp
qed

text \<open>
  The power sum is not the sum of the weighted gains: with the weights 1/2, 1/4, 1/4 and
  the gains 0, 1, 0 the first is 1/2 and the second 1/4.
\<close>

lemma power_sum_not_linear:
  "power_sum [Fin (1 / 2), Fin (1 / 4), Fin (1 / 4)] [[0, 1], [1, 0], [0, 1]] 0 = Some (Fin (1 / 2))
   \<and> (\<Sum>j < 3. [Fin (1 / 2), Fin (1 / 4), Fin (1 / 4)] ! j * [[0, 1], [1, 0], [0, 1]] ! j ! 0)
       = Fin (1 / 4)"
  by (simp add: power_sum_def power_sum_body_def vec_at_def upt_small fp_defs real_sqrt_divide
      eval_nat_numeral)

section \<open>The interpolation length\<close>

text \<open>
  C4, as stated, fails: with the metadata changed, a frame processed before, the flag
  false and the interpolation length of the metadata 0, the interpolation length of the
  call is 0, which is the length of the metadata although the flag is false.
\<close>

theorem interp_length_iff_counterexample:
  "gains_and_interp X_ex p_ex (md_ex (Fin 30) 0 False 0) = Some ([Fin 1, Fin 0], 0)
   \<and> sint (interpolationLength (jumpPosition (md_ex (Fin 30) 0 False 0))) = 0
   \<and> \<not> flag (jumpPosition (md_ex (Fin 30) 0 False 0))"
  by (simp add: model_defs ex_defs fp_defs upt_small)

text \<open>
  C4, amended. The interpolation length of a call is \<open>interpolationLength\<close> of the
  metadata when the flag is true, the metadata differ from the stored ones and a frame
  has been processed before; it is 0 in every other case. So it equals
  \<open>interpolationLength\<close> iff the three conditions hold or \<open>interpolationLength\<close> is 0.
  The first call on a new panner has the length 0.
\<close>

theorem gains_and_interp_length:
  assumes "gains_and_interp X p metadata = Some (gains, nInterpSamples)"
  shows "nInterpSamples =
           (if flag (jumpPosition metadata) \<and> metadata \<noteq> m_metadata p \<and> \<not> m_bFirstFrame p
            then sint (interpolationLength (jumpPosition metadata)) else 0)
         \<and> ((nInterpSamples = sint (interpolationLength (jumpPosition metadata))) =
              ((flag (jumpPosition metadata) \<and> metadata \<noteq> m_metadata p \<and> \<not> m_bFirstFrame p)
               \<or> sint (interpolationLength (jumpPosition metadata)) = 0))
         \<and> (p = CAdmPointSourcePanner md0 targetLayout \<longrightarrow> nInterpSamples = 0)"
  using assms
  by (auto simp add: gains_and_interp_def CAdmPointSourcePanner_def split: if_splits option.splits)

theorem gains_and_interp_length_witness:
  "gains_and_interp X_ex p_ex (md_ex (Fin 30) 0 True 2) = Some ([Fin 1, Fin 0], 2)
   \<and> flag (jumpPosition (md_ex (Fin 30) 0 True 2))
   \<and> md_ex (Fin 30) 0 True 2 \<noteq> m_metadata p_ex \<and> \<not> m_bFirstFrame p_ex
   \<and> sint (interpolationLength (jumpPosition (md_ex (Fin 30) 0 True 2))) = 2"
proof -
  have e: "gains_and_interp X_ex p_ex (md_ex (Fin 30) 0 True 2) = Some ([Fin 1, Fin 0], 2)"
    by (simp add: model_defs ex_defs fp_defs upt_small)
  show ?thesis
    using gains_and_interp_length [OF e, of "md_ex 0 0 False 0" stereo] e
    by (simp add: ex_defs split: if_splits)
qed

section \<open>The state after a call\<close>

text \<open>
  What lines 134 to 139 store: the gains of the call, the metadata of the call, and
  that a frame has been processed. The layout and the channel count stay.
\<close>

lemma ProcessAccumul_commit:
  assumes "ProcessAccumul X p metadata pIn D F N off = Some (p', D', F')"
  shows "\<exists>n. gains_and_interp X p metadata = Some (m_gains p', n)"
    and "m_metadata p' = metadata" and "\<not> m_bFirstFrame p'"
    and "m_layout p' = m_layout p" and "m_nCh p' = m_nCh p"
  using assms by (auto simp add: ProcessAccumul_eq split: option.splits if_splits)

text \<open>
  The stored gains are current after a call whose metadata differ from the stored ones,
  and stay current over a call whose metadata do not.
\<close>

lemma ProcessAccumul_gains_current:
  assumes "ProcessAccumul X p metadata pIn D F N off = Some (p', D', F')"
    and "metadata \<noteq> m_metadata p \<or> gains_current X p"
  shows "gains_current X p'"
  using assms
  by (auto simp add: ProcessAccumul_eq gains_current_def gains_and_interp_def
      split: option.splits if_splits)

text \<open>
  On a new panner, a first frame whose metadata equal the default metadata takes the
  branch of line 101: the panner keeps the gains 0, whatever the collaborators compute.
\<close>

lemma first_frame_default_metadata_gains:
  assumes "ProcessAccumul X (CAdmPointSourcePanner md0 targetLayout) md0 pIn D F N off
             = Some (p', D', F')"
  shows "m_gains p' = replicate (count_nonLFE (channels targetLayout)) 0"
  using ProcessAccumul_commit(1) [OF assms]
  by (simp add: gains_and_interp_def CAdmPointSourcePanner_def)

text \<open>
  C7. The stored gains are not current in every state that can be reached. A new panner
  holds the default metadata and the gains 0. When the first frame carries metadata equal
  to the default ones, here a source straight ahead, line 45 takes the stored gains for
  the gains of the frame: the panner stores the gains 0 again, and both buffers stay as
  they were, while the gains that lines 66 to 91 compute for these metadata are 0 and 1.
\<close>

theorem first_frame_default_metadata:
  "ProcessAccumul X_ex (CAdmPointSourcePanner (md_ex 0 0 False 0) stereo)
      (md_ex 0 0 False 0) [1, 1] [[0, 0], [0, 0]] [[0, 0], [0, 0]] 2 0
     = Some (\<lparr> m_layout = stereo, m_nCh = 2, m_gains = [0, 0],
               m_metadata = md_ex 0 0 False 0, m_bFirstFrame = False \<rparr>,
             [[0, 0], [0, 0]], [[0, 0], [0, 0]])
   \<and> recomputed_gains X_ex 2 (md_ex 0 0 False 0) = Some [0, 1]"
proof -
  have g: "gains_and_interp X_ex (CAdmPointSourcePanner (md_ex 0 0 False 0) stereo)
             (md_ex 0 0 False 0) = Some ([0, 0], 0)"
    by (simp add: gains_and_interp_def CAdmPointSourcePanner_def count_nonLFE_def stereo_def
        eval_nat_numeral)
  have a: "ProcessAccumul X_ex (CAdmPointSourcePanner (md_ex 0 0 False 0) stereo)
      (md_ex 0 0 False 0) [1, 1] [[0, 0], [0, 0]] [[0, 0], [0, 0]] 2 0
     = Some (\<lparr> m_layout = stereo, m_nCh = 2, m_gains = [0, 0],
               m_metadata = md_ex 0 0 False 0, m_bFirstFrame = False \<rparr>,
             [[0, 0], [0, 0]], [[0, 0], [0, 0]])"
    apply (simp add: ProcessAccumul_def g)
    apply (simp add: apply_defs ex_defs fp_defs upt_small upto.simps CAdmPointSourcePanner_def
        count_nonLFE_def)
    done
  have b: "recomputed_gains X_ex 2 (md_ex 0 0 False 0) = Some [0, 1]"
    by (simp add: model_defs ex_defs fp_defs upt_small)
  show ?thesis using a b by simp
qed

section \<open>The gain on every sample\<close>

lemma set_interp_range [simp]: "set (interp_range n) = {0..<n}"
  by (auto simp add: interp_range_def)

lemma set_steady_range [simp]: "set (steady_range n N) = {n..<sint N}"
  by (auto simp add: steady_range_def)

lemma distinct_interp_range [simp]: "distinct (interp_range n)"
  by (simp add: interp_range_def)

lemma distinct_steady_range [simp]: "distinct (steady_range n N)"
  by (simp add: steady_range_def)

lemma sample_slot_inj_on:
  "\<forall>s \<in> S. - (2 ^ 31) \<le> s \<and> s < 2 ^ 31 \<Longrightarrow> inj_on (sample_slot off) S"
  by (rule inj_onI) (blast intro: sample_slot_inj)

lemma sint32_bounds: "- (2 ^ 31) \<le> sint (w :: 32 word)" "sint (w :: 32 word) < 2 ^ 31"
  using sint_ge [of w] sint_lt [of w] by simp_all

lemma channel_row_interp_at:
  assumes n: "- (2 ^ 31) \<le> n" "n < 2 ^ 31"
    and s: "0 \<le> s" "s < n"
    and k: "sample_slot off s < length row"
  shows "channel_row gains lastGains pIn n N off c iCh row ! sample_slot off s
           = row ! sample_slot off s
             + the (interp_sample gains lastGains pIn (deltaCoeff n) iCh s) * c"
proof -
  let ?inner = "row_after (interp_sample gains lastGains pIn (deltaCoeff n) iCh) off c
                  (interp_range n) row"
  have "sample_slot off s \<notin> sample_slot off ` set (steady_range n N)"
  proof
    assume "sample_slot off s \<in> sample_slot off ` set (steady_range n N)"
    then obtain t where t: "n \<le> t" "t < sint N" and e: "sample_slot off s = sample_slot off t"
      by auto
    have "s = t"
      using n s t sint32_bounds [of N] by (intro sample_slot_inj [OF _ _ _ _ e]) simp_all
    then show False using s t by simp
  qed
  then have "channel_row gains lastGains pIn n N off c iCh row ! sample_slot off s
               = ?inner ! sample_slot off s"
    by (simp add: channel_row_def row_after_other)
  also have "\<dots> = row ! sample_slot off s
             + the (interp_sample gains lastGains pIn (deltaCoeff n) iCh s) * c"
  proof (rule row_after_at)
    show "inj_on (sample_slot off) (set (interp_range n))"
      using n by (intro sample_slot_inj_on) auto
  qed (use s k in simp_all)
  finally show ?thesis .
qed

lemma channel_row_steady_at:
  assumes n: "- (2 ^ 31) \<le> n" "n < 2 ^ 31"
    and s: "n \<le> s" "s < sint N"
    and k: "sample_slot off s < length row"
  shows "channel_row gains lastGains pIn n N off c iCh row ! sample_slot off s
           = row ! sample_slot off s + the (steady_sample gains pIn iCh s) * c"
proof -
  let ?inner = "row_after (interp_sample gains lastGains pIn (deltaCoeff n) iCh) off c
                  (interp_range n) row"
  have "sample_slot off s \<notin> sample_slot off ` set (interp_range n)"
  proof
    assume "sample_slot off s \<in> sample_slot off ` set (interp_range n)"
    then obtain t where t: "0 \<le> t" "t < n" and e: "sample_slot off s = sample_slot off t"
      by auto
    have "s = t"
      using n s t sint32_bounds [of N] by (intro sample_slot_inj [OF _ _ _ _ e]) simp_all
    then show False using s t by simp
  qed
  then have inner: "?inner ! sample_slot off s = row ! sample_slot off s"
    by (rule row_after_other)
  have "channel_row gains lastGains pIn n N off c iCh row ! sample_slot off s
          = ?inner ! sample_slot off s + the (steady_sample gains pIn iCh s) * c"
    unfolding channel_row_def
  proof (rule row_after_at)
    show "inj_on (sample_slot off) (set (steady_range n N))"
      using n sint32_bounds [of N] by (intro sample_slot_inj_on) auto
  qed (use s k in simp_all)
  then show ?thesis by (simp add: inner)
qed

lemma channel_row_other:
  "k \<notin> sample_slot off ` ({0..<n} \<union> {n..<sint N}) \<Longrightarrow>
   channel_row gains lastGains pIn n N off c iCh row ! k = row ! k"
  by (simp add: channel_row_def row_after_other image_Un)

lemma interp_sample_Some:
  assumes "interp_sample gains lastGains pIn dC iCh s \<noteq> None"
  shows "interp_sample gains lastGains pIn dC iCh s
           = Some (pIn ! nat s * interp_gain dC (gains ! iCh) (lastGains ! iCh) s)"
    and "0 \<le> s" and "s < int (length pIn)" and "iCh < length gains" and "iCh < length lastGains"
  using assms
  by (auto simp add: interp_sample_def ptr_at_def vec_at_def split: if_splits)

lemma steady_sample_Some:
  assumes "steady_sample gains pIn iCh s \<noteq> None"
  shows "steady_sample gains pIn iCh s = Some (pIn ! nat s * gains ! iCh)"
    and "0 \<le> s" and "s < int (length pIn)" and "iCh < length gains"
  using assms
  by (auto simp add: steady_sample_def ptr_at_def vec_at_def split: if_splits)

lemma interp_gain_deltaCoeff:
  assumes "0 \<le> s" and "s < n"
  shows "interp_gain (deltaCoeff n) g1 g0 s
           = Fin (real_of_int s / real_of_int n) * g1
             + Fin (1 - real_of_int s / real_of_int n) * g0"
  using assms by (simp add: interp_gain_def deltaCoeff_def fp_defs Let_def)

lemma gains_and_interp_int32:
  assumes "gains_and_interp X p metadata = Some (gains, n)"
  shows "- (2 ^ 31) \<le> n" and "n < 2 ^ 31"
  using assms sint32_bounds [of "interpolationLength (jumpPosition metadata)"]
  by (auto simp add: gains_and_interp_def split: if_splits option.splits)

lemma ProcessAccumul_SomeD:
  assumes "ProcessAccumul X p metadata pIn D F N off = Some (p', D', F')"
    and "gains_and_interp X p metadata = Some (gains, n)"
  shows "layout_ok (channels (m_layout p)) gains (m_gains p) pIn n N off
           (length (channels (m_layout p))) (D, F)"
    and "D' = bufs_after (channels (m_layout p)) gains (m_gains p) pIn n N off
                (fsqrt (1 - diffuse metadata)) (length (channels (m_layout p))) D"
    and "F' = bufs_after (channels (m_layout p)) gains (m_gains p) pIn n N off
                (fsqrt (diffuse metadata)) (length (channels (m_layout p))) F"
    and "p' = p \<lparr> m_gains := gains, m_metadata := metadata, m_bFirstFrame := False \<rparr>"
  using assms by (auto simp add: ProcessAccumul_eq split: if_splits)

lemma layout_ok_interp:
  assumes "layout_ok chs gains lastGains pIn n N off (length chs) (D, F)"
    and "i < length chs" and "\<not> isLFE (chs ! i)" and "0 \<le> s" and "s < n"
  shows "i < length D" and "i < length F"
    and "sample_slot off s < length (D ! i)" and "sample_slot off s < length (F ! i)"
    and "interp_sample gains lastGains pIn (deltaCoeff n) (chan_rank chs i) s \<noteq> None"
proof -
  have ok: "samples_ok (interp_sample gains lastGains pIn (deltaCoeff n) (chan_rank chs i)) off
              (interp_range n) i (D, F)"
    using assms(1-3) by (simp add: layout_ok_def channel_ok_def)
  have mem: "s \<in> set (interp_range n)" using assms(4,5) by simp
  then have ne: "interp_range n \<noteq> []" by (metis empty_iff empty_set)
  show "i < length D" and "i < length F"
    and "sample_slot off s < length (D ! i)" and "sample_slot off s < length (F ! i)"
    and "interp_sample gains lastGains pIn (deltaCoeff n) (chan_rank chs i) s \<noteq> None"
    using ok ne mem unfolding samples_ok_def by auto
qed

lemma layout_ok_steady:
  assumes "layout_ok chs gains lastGains pIn n N off (length chs) (D, F)"
    and "i < length chs" and "\<not> isLFE (chs ! i)" and "n \<le> s" and "s < sint N"
  shows "i < length D" and "i < length F"
    and "sample_slot off s < length (D ! i)" and "sample_slot off s < length (F ! i)"
    and "steady_sample gains pIn (chan_rank chs i) s \<noteq> None"
proof -
  have ok: "samples_ok (steady_sample gains pIn (chan_rank chs i)) off
              (steady_range n N) i (D, F)"
    using assms(1-3) by (simp add: layout_ok_def channel_ok_def)
  have mem: "s \<in> set (steady_range n N)" using assms(4,5) by simp
  then have ne: "steady_range n N \<noteq> []" by (metis empty_iff empty_set)
  show "i < length D" and "i < length F"
    and "sample_slot off s < length (D ! i)" and "sample_slot off s < length (F ! i)"
    and "steady_sample gains pIn (chan_rank chs i) s \<noteq> None"
    using ok ne mem unfolding samples_ok_def by auto
qed

lemma bufs_after_interp_at:
  assumes "i < length chs" and "\<not> isLFE (chs ! i)" and "i < length B"
    and "sample_slot off s < length (B ! i)"
    and "interp_sample gains lastGains pIn (deltaCoeff n) (chan_rank chs i) s \<noteq> None"
    and "- (2 ^ 31) \<le> n" and "n < 2 ^ 31" and "0 \<le> s" and "s < n"
  shows "bufs_after chs gains lastGains pIn n N off c (length chs) B ! i ! sample_slot off s
           = B ! i ! sample_slot off s
             + pIn ! nat s
               * (Fin (real_of_int s / real_of_int n) * gains ! chan_rank chs i
                  + Fin (1 - real_of_int s / real_of_int n) * lastGains ! chan_rank chs i)
               * c"
  using assms
  by (simp add: nth_bufs_after channel_row_interp_at interp_sample_Some(1)
      interp_gain_deltaCoeff)

lemma bufs_after_steady_at:
  assumes "i < length chs" and "\<not> isLFE (chs ! i)" and "i < length B"
    and "sample_slot off s < length (B ! i)"
    and "steady_sample gains pIn (chan_rank chs i) s \<noteq> None"
    and "- (2 ^ 31) \<le> n" and "n < 2 ^ 31" and "n \<le> s" and "s < sint N"
  shows "bufs_after chs gains lastGains pIn n N off c (length chs) B ! i ! sample_slot off s
           = B ! i ! sample_slot off s + pIn ! nat s * gains ! chan_rank chs i * c"
  using assms
  by (simp add: nth_bufs_after channel_row_steady_at steady_sample_Some(1))

text \<open>
  The effect of a call on the slot of sample \<open>s\<close> in the rows of a non-LFE channel, and
  what the call has read and written there without leaving the valid range.
\<close>

lemma ProcessAccumul_sample_at:
  assumes call: "ProcessAccumul X p metadata pIn D F N off = Some (p', D', F')"
    and gi: "gains_and_interp X p metadata = Some (gains, n)"
    and i: "i < length (channels (m_layout p))" "\<not> isLFE (channels (m_layout p) ! i)"
    and s: "0 \<le> s" "s < n \<or> s < sint N"
  shows "D' ! i ! sample_slot off s
           = D ! i ! sample_slot off s
             + pIn ! nat s
               * applied_gain gains (m_gains p) n (chan_rank (channels (m_layout p)) i) s
               * fsqrt (1 - diffuse metadata)"
    and "F' ! i ! sample_slot off s
           = F ! i ! sample_slot off s
             + pIn ! nat s
               * applied_gain gains (m_gains p) n (chan_rank (channels (m_layout p)) i) s
               * fsqrt (diffuse metadata)"
    and "i < length D" and "i < length F"
    and "sample_slot off s < length (D ! i)" and "sample_slot off s < length (F ! i)"
    and "s < int (length pIn)"
    and "chan_rank (channels (m_layout p)) i < length gains"
proof -
  note R = ProcessAccumul_SomeD [OF call gi]
  note n = gains_and_interp_int32 [OF gi]
  have "D' ! i ! sample_slot off s
           = D ! i ! sample_slot off s
             + pIn ! nat s
               * applied_gain gains (m_gains p) n (chan_rank (channels (m_layout p)) i) s
               * fsqrt (1 - diffuse metadata)
       \<and> F' ! i ! sample_slot off s
           = F ! i ! sample_slot off s
             + pIn ! nat s
               * applied_gain gains (m_gains p) n (chan_rank (channels (m_layout p)) i) s
               * fsqrt (diffuse metadata)
       \<and> i < length D \<and> i < length F
       \<and> sample_slot off s < length (D ! i) \<and> sample_slot off s < length (F ! i)
       \<and> s < int (length pIn)
       \<and> chan_rank (channels (m_layout p)) i < length gains"
  proof (cases "s < n")
    case True
    note ok = layout_ok_interp [OF R(1) i s(1) True]
    show ?thesis
      using True ok interp_sample_Some(3,4) [OF ok(5)]
      by (simp add: R(2,3) applied_gain_def nth_bufs_after i
          channel_row_interp_at [OF n s(1) True] interp_sample_Some(1) [OF ok(5)])
  next
    case False
    then have s': "n \<le> s" "s < sint N" using s(2) by simp_all
    note ok = layout_ok_steady [OF R(1) i s']
    show ?thesis
      using False ok steady_sample_Some(3,4) [OF ok(5)]
      by (simp add: R(2,3) applied_gain_def nth_bufs_after i
          channel_row_steady_at [OF n s'] steady_sample_Some(1) [OF ok(5)])
  qed
  then show "D' ! i ! sample_slot off s
           = D ! i ! sample_slot off s
             + pIn ! nat s
               * applied_gain gains (m_gains p) n (chan_rank (channels (m_layout p)) i) s
               * fsqrt (1 - diffuse metadata)"
    and "F' ! i ! sample_slot off s
           = F ! i ! sample_slot off s
             + pIn ! nat s
               * applied_gain gains (m_gains p) n (chan_rank (channels (m_layout p)) i) s
               * fsqrt (diffuse metadata)"
    and "i < length D" and "i < length F"
    and "sample_slot off s < length (D ! i)" and "sample_slot off s < length (F ! i)"
    and "s < int (length pIn)"
    and "chan_rank (channels (m_layout p)) i < length gains"
    by simp_all
qed

text \<open>
  C1. In a call of \<open>ProcessAccumul\<close>, for a non-LFE channel \<open>i\<close> and its gain index
  \<open>iCh\<close>, the number of non-LFE channels before \<open>i\<close>, with \<open>g0\<close> the stored gain and
  \<open>g1\<close> the gain of the call at \<open>iCh\<close>: a sample \<open>s\<close> of the first loop adds the input
  sample times \<open>f * g1 + (1 - f) * g0\<close>, where \<open>f = s / nInterpSamples\<close>, times the direct
  or the diffuse coefficient; a sample of the second loop adds the input sample times
  \<open>g1\<close> times the coefficient. The witness is the scenario of the specification: stored
  gains 0 and 1, gains 1 and 0, two samples of interpolation in a frame of four samples of
  value 1 give 0, 1/2, 1, 1 on the first channel and 1, 1/2, 0, 0 on the second.
\<close>

theorem ProcessAccumul_effective_gain:
  assumes call: "ProcessAccumul X p metadata pIn ppDirect ppDiffuse nSamples nOffset
                   = Some (p', ppDirect', ppDiffuse')"
    and gi: "gains_and_interp X p metadata = Some (gains, nInterpSamples)"
    and i: "i < length (channels (m_layout p))" "\<not> isLFE (channels (m_layout p) ! i)"
    and s: "0 \<le> s" "s < nInterpSamples \<or> s < sint nSamples"
  shows "(let iCh = count_nonLFE (take i (channels (m_layout p)));
              g0 = m_gains p ! iCh;
              g1 = gains ! iCh;
              f = real_of_int s / real_of_int nInterpSamples;
              g = (if s < nInterpSamples then Fin f * g1 + Fin (1 - f) * g0 else g1);
              k = sample_slot nOffset s
          in ppDirect' ! i ! k
               = ppDirect ! i ! k + pIn ! nat s * g * fsqrt (1 - diffuse metadata)
             \<and> ppDiffuse' ! i ! k
               = ppDiffuse ! i ! k + pIn ! nat s * g * fsqrt (diffuse metadata))"
  using ProcessAccumul_sample_at(1,2) [OF call gi i s] s(1)
  by (simp add: Let_def applied_gain_def chan_rank_def interp_gain_deltaCoeff)

lemmas scenario_defs = ProcessAccumul_def apply_defs ex_defs fp_defs upt_small upto.simps

theorem ProcessAccumul_effective_gain_witness:
  "ProcessAccumul X_ex p_ex (md_ex (Fin 30) 0 True 2) [1, 1, 1, 1]
       [[0, 0, 0, 0], [0, 0, 0, 0]] [[0, 0, 0, 0], [0, 0, 0, 0]] 4 0
     = Some (p_ex \<lparr> m_gains := [Fin 1, Fin 0], m_metadata := md_ex (Fin 30) 0 True 2 \<rparr>,
             [[Fin 0, Fin (1 / 2), Fin 1, Fin 1], [Fin 1, Fin (1 / 2), Fin 0, Fin 0]],
             [[Fin 0, Fin 0, Fin 0, Fin 0], [Fin 0, Fin 0, Fin 0, Fin 0]])
   \<and> gains_and_interp X_ex p_ex (md_ex (Fin 30) 0 True 2) = Some ([Fin 1, Fin 0], 2)
   \<and> m_gains p_ex = [0, 1]
   \<and> Fin (real_of_int 1 / real_of_int 2) * Fin 1 + Fin (1 - real_of_int 1 / real_of_int 2) * Fin 0
       = Fin (1 / 2)"
proof -
  have gi: "gains_and_interp X_ex p_ex (md_ex (Fin 30) 0 True 2) = Some ([Fin 1, Fin 0], 2)"
    by (simp add: model_defs ex_defs fp_defs upt_small)
  have call: "ProcessAccumul X_ex p_ex (md_ex (Fin 30) 0 True 2) [1, 1, 1, 1]
       [[0, 0, 0, 0], [0, 0, 0, 0]] [[0, 0, 0, 0], [0, 0, 0, 0]] 4 0
     = Some (p_ex \<lparr> m_gains := [Fin 1, Fin 0], m_metadata := md_ex (Fin 30) 0 True 2 \<rparr>,
             [[Fin 0, Fin (1 / 2), Fin 1, Fin 1], [Fin 1, Fin (1 / 2), Fin 0, Fin 0]],
             [[Fin 0, Fin 0, Fin 0, Fin 0], [Fin 0, Fin 0, Fin 0, Fin 0]])"
    apply (simp add: ProcessAccumul_def gi)
    apply (simp add: apply_defs ex_defs fp_defs upt_small upto.simps)
    done
  have i: "0 < length (channels (m_layout p_ex))" "\<not> isLFE (channels (m_layout p_ex) ! 0)"
    by (simp_all add: ex_defs)
  have s: "(0::int) \<le> 1" "(1::int) < 2 \<or> 1 < sint (4 :: 32 word)"
    by simp_all
  show ?thesis
    using ProcessAccumul_effective_gain [OF call gi i s] call gi
    by (simp add: ex_defs)
qed

section \<open>The rows of the buffers\<close>

text \<open>A call keeps the shape of the two buffers.\<close>

lemma ProcessAccumul_shape:
  assumes call: "ProcessAccumul X p metadata pIn D F N off = Some (p', D', F')"
  shows "length D' = length D" and "length F' = length F"
    and "i < length D \<Longrightarrow> length (D' ! i) = length (D ! i)"
    and "i < length F \<Longrightarrow> length (F' ! i) = length (F ! i)"
  using call
  by (auto simp add: ProcessAccumul_eq length_nth_bufs_after split: option.splits if_splits)

text \<open>The rows of the LFE channels, and the rows beyond the layout, stay as they were.\<close>

lemma ProcessAccumul_untouched_row:
  assumes call: "ProcessAccumul X p metadata pIn D F N off = Some (p', D', F')"
    and i: "length (channels (m_layout p)) \<le> i \<or> isLFE (channels (m_layout p) ! i)"
  shows "i < length D \<Longrightarrow> D' ! i = D ! i" and "i < length F \<Longrightarrow> F' ! i = F ! i"
  using call i
  by (auto simp add: ProcessAccumul_eq nth_bufs_after split: option.splits if_splits)

text \<open>So does every slot that is not the slot of a sample of one of the two loops.\<close>

lemma ProcessAccumul_untouched_slot:
  assumes call: "ProcessAccumul X p metadata pIn D F N off = Some (p', D', F')"
    and gi: "gains_and_interp X p metadata = Some (gains, n)"
    and k: "k \<notin> sample_slot off ` (set (interp_range n) \<union> set (steady_range n N))"
  shows "i < length D \<Longrightarrow> D' ! i ! k = D ! i ! k" and "i < length F \<Longrightarrow> F' ! i ! k = F ! i ! k"
  using ProcessAccumul_SomeD(2,3) [OF call gi] k
  by (simp_all add: nth_bufs_after channel_row_other)

text \<open>
  C8. A call leaves the rows of the LFE channels as they were. In the rows of a non-LFE
  channel \<open>i\<close> it adds, to the slot of every sample of the two loops, the input sample
  times the gain on that sample times the coefficient of the buffer, and leaves every
  other slot as it was; what is added does not depend on the contents of the buffers. The
  gain index of channel \<open>i\<close> is the number of non-LFE channels before \<open>i\<close> in the layout.
  In the witness the second of three channels is the LFE channel, and the third channel
  has the gain index 1.
\<close>

theorem ProcessAccumul_frame:
  assumes call: "ProcessAccumul X p metadata pIn ppDirect ppDiffuse nSamples nOffset
                   = Some (p', ppDirect', ppDiffuse')"
    and gi: "gains_and_interp X p metadata = Some (gains, nInterpSamples)"
  shows "length ppDirect' = length ppDirect \<and> length ppDiffuse' = length ppDiffuse
    \<and> (\<forall>i. length (channels (m_layout p)) \<le> i \<or> isLFE (channels (m_layout p) ! i) \<longrightarrow>
          (i < length ppDirect \<longrightarrow> ppDirect' ! i = ppDirect ! i)
          \<and> (i < length ppDiffuse \<longrightarrow> ppDiffuse' ! i = ppDiffuse ! i))
    \<and> (\<forall>i < length (channels (m_layout p)). \<not> isLFE (channels (m_layout p) ! i) \<longrightarrow>
          (\<forall>s. 0 \<le> s \<and> (s < nInterpSamples \<or> s < sint nSamples) \<longrightarrow>
             ppDirect' ! i ! sample_slot nOffset s
               = ppDirect ! i ! sample_slot nOffset s
                 + pIn ! nat s
                   * applied_gain gains (m_gains p) nInterpSamples
                       (count_nonLFE (take i (channels (m_layout p)))) s
                   * fsqrt (1 - diffuse metadata)
             \<and> ppDiffuse' ! i ! sample_slot nOffset s
               = ppDiffuse ! i ! sample_slot nOffset s
                 + pIn ! nat s
                   * applied_gain gains (m_gains p) nInterpSamples
                       (count_nonLFE (take i (channels (m_layout p)))) s
                   * fsqrt (diffuse metadata))
          \<and> (\<forall>k. k \<notin> sample_slot nOffset `
                       (set (interp_range nInterpSamples)
                        \<union> set (steady_range nInterpSamples nSamples)) \<longrightarrow>
                 (i < length ppDirect \<longrightarrow> ppDirect' ! i ! k = ppDirect ! i ! k)
                 \<and> (i < length ppDiffuse \<longrightarrow> ppDiffuse' ! i ! k = ppDiffuse ! i ! k)))"
proof (intro conjI allI impI)
  show "length ppDirect' = length ppDirect" "length ppDiffuse' = length ppDiffuse"
    using ProcessAccumul_shape(1,2) [OF call] by simp_all
next
  fix i
  assume "length (channels (m_layout p)) \<le> i \<or> isLFE (channels (m_layout p) ! i)"
  note u = ProcessAccumul_untouched_row [OF call this]
  { assume "i < length ppDirect" then show "ppDirect' ! i = ppDirect ! i" by (rule u(1)) }
  { assume "i < length ppDiffuse" then show "ppDiffuse' ! i = ppDiffuse ! i" by (rule u(2)) }
next
  fix i s
  assume i: "i < length (channels (m_layout p))" "\<not> isLFE (channels (m_layout p) ! i)"
    and s: "0 \<le> s \<and> (s < nInterpSamples \<or> s < sint nSamples)"
  from s have s': "0 \<le> s" "s < nInterpSamples \<or> s < sint nSamples" by simp_all
  show "ppDirect' ! i ! sample_slot nOffset s
               = ppDirect ! i ! sample_slot nOffset s
                 + pIn ! nat s
                   * applied_gain gains (m_gains p) nInterpSamples
                       (count_nonLFE (take i (channels (m_layout p)))) s
                   * fsqrt (1 - diffuse metadata)"
    using ProcessAccumul_sample_at(1) [OF call gi i s'] by (simp add: chan_rank_def)
  show "ppDiffuse' ! i ! sample_slot nOffset s
               = ppDiffuse ! i ! sample_slot nOffset s
                 + pIn ! nat s
                   * applied_gain gains (m_gains p) nInterpSamples
                       (count_nonLFE (take i (channels (m_layout p)))) s
                   * fsqrt (diffuse metadata)"
    using ProcessAccumul_sample_at(2) [OF call gi i s'] by (simp add: chan_rank_def)
next
  fix i k
  assume k: "k \<notin> sample_slot nOffset `
                 (set (interp_range nInterpSamples) \<union> set (steady_range nInterpSamples nSamples))"
  note u = ProcessAccumul_untouched_slot [OF call gi k]
  { assume "i < length ppDirect" then show "ppDirect' ! i ! k = ppDirect ! i ! k" by (rule u(1)) }
  { assume "i < length ppDiffuse" then show "ppDiffuse' ! i ! k = ppDiffuse ! i ! k" by (rule u(2)) }
qed

theorem ProcessAccumul_frame_witness:
  "ProcessAccumul X_ex p_lfe (md_ex (Fin 30) 0 True 2) [1, 1, 1, 1]
       [[Fin 1, Fin 1, Fin 1, Fin 1], [Fin 7, Fin 7, Fin 7, Fin 7], [Fin 2, Fin 2, Fin 2, Fin 2]]
       [[Fin 3, Fin 3, Fin 3, Fin 3], [Fin 8, Fin 8, Fin 8, Fin 8], [Fin 4, Fin 4, Fin 4, Fin 4]]
       4 0
     = Some (p_lfe \<lparr> m_gains := [Fin 1, Fin 0], m_metadata := md_ex (Fin 30) 0 True 2 \<rparr>,
        [[Fin 1, Fin (3 / 2), Fin 2, Fin 2], [Fin 7, Fin 7, Fin 7, Fin 7],
         [Fin 3, Fin (5 / 2), Fin 2, Fin 2]],
        [[Fin 3, Fin 3, Fin 3, Fin 3], [Fin 8, Fin 8, Fin 8, Fin 8], [Fin 4, Fin 4, Fin 4, Fin 4]])
   \<and> gains_and_interp X_ex p_lfe (md_ex (Fin 30) 0 True 2) = Some ([Fin 1, Fin 0], 2)
   \<and> isLFE (channels (m_layout p_lfe) ! 1)
   \<and> count_nonLFE (take 2 (channels (m_layout p_lfe))) = 1"
proof -
  have gi: "gains_and_interp X_ex p_lfe (md_ex (Fin 30) 0 True 2) = Some ([Fin 1, Fin 0], 2)"
    by (simp add: model_defs ex_defs fp_defs upt_small)
  have call: "ProcessAccumul X_ex p_lfe (md_ex (Fin 30) 0 True 2) [1, 1, 1, 1]
       [[Fin 1, Fin 1, Fin 1, Fin 1], [Fin 7, Fin 7, Fin 7, Fin 7], [Fin 2, Fin 2, Fin 2, Fin 2]]
       [[Fin 3, Fin 3, Fin 3, Fin 3], [Fin 8, Fin 8, Fin 8, Fin 8], [Fin 4, Fin 4, Fin 4, Fin 4]]
       4 0
     = Some (p_lfe \<lparr> m_gains := [Fin 1, Fin 0], m_metadata := md_ex (Fin 30) 0 True 2 \<rparr>,
        [[Fin 1, Fin (3 / 2), Fin 2, Fin 2], [Fin 7, Fin 7, Fin 7, Fin 7],
         [Fin 3, Fin (5 / 2), Fin 2, Fin 2]],
        [[Fin 3, Fin 3, Fin 3, Fin 3], [Fin 8, Fin 8, Fin 8, Fin 8], [Fin 4, Fin 4, Fin 4, Fin 4]])"
    apply (simp add: ProcessAccumul_def gi)
    apply (simp add: apply_defs ex_defs fp_defs upt_small upto.simps)
    done
  have "isLFE (channels (m_layout p_lfe) ! 1)"
    and "count_nonLFE (take 2 (channels (m_layout p_lfe))) = 1"
    by (simp_all add: ex_defs count_nonLFE_def)
  then show ?thesis
    using ProcessAccumul_frame [OF call gi] call gi by simp
qed

section \<open>The frame without interpolation\<close>

text \<open>
  C9, as stated, fails. A call with unchanged metadata has the interpolation length 0,
  and line 115 divides by it without a guard: the divisor is 0 and the quotient is
  infinite.
\<close>

theorem unguarded_division_counterexample:
  "gains_and_interp X_ex p_ex (md_ex (Fin (- 30)) 0 False 0) = Some ([0, 1], 0)
   \<and> float_of_int 0 = 0
   \<and> deltaCoeff 0 = PInf"
  by (simp add: gains_and_interp_def deltaCoeff_def ex_defs fp_defs)

lemma interp_range_0 [simp]: "interp_range 0 = []"
  by (simp add: interp_range_def)

lemma apply_channel_no_interpolation:
  "apply_channel gains lastGains pIn 0 nSamples nOffset dc fc i iCh bufs
     = for_loop (steady_range 0 nSamples)
         (sample_body (steady_sample gains pIn iCh) nOffset dc fc i) bufs"
  by (simp add: apply_channel_def)

text \<open>
  C9, amended. When the interpolation length is 0, the quotient of line 115 is still
  evaluated and is infinite, there being no guard; but the first loop has no iteration
  and the quotient is not used: a non-LFE channel is processed by the second loop alone,
  which adds, for every sample of the frame, the input sample times the gain of the call
  times the coefficient of the buffer. No fault comes from the division.
\<close>

theorem ProcessAccumul_no_interpolation:
  assumes call: "ProcessAccumul X p metadata pIn ppDirect ppDiffuse nSamples nOffset
                   = Some (p', ppDirect', ppDiffuse')"
    and gi: "gains_and_interp X p metadata = Some (gains, 0)"
    and i: "i < length (channels (m_layout p))" "\<not> isLFE (channels (m_layout p) ! i)"
    and s: "0 \<le> s" "s < sint nSamples"
  shows "deltaCoeff 0 = PInf
    \<and> interp_range 0 = []
    \<and> (\<forall>gs lgs xs dc fc j jCh bufs.
          apply_channel gs lgs xs 0 nSamples nOffset dc fc j jCh bufs
            = for_loop (steady_range 0 nSamples)
                (sample_body (steady_sample gs xs jCh) nOffset dc fc j) bufs)
    \<and> (let iCh = count_nonLFE (take i (channels (m_layout p)));
            k = sample_slot nOffset s
        in ppDirect' ! i ! k
             = ppDirect ! i ! k + pIn ! nat s * gains ! iCh * fsqrt (1 - diffuse metadata)
           \<and> ppDiffuse' ! i ! k
             = ppDiffuse ! i ! k + pIn ! nat s * gains ! iCh * fsqrt (diffuse metadata))"
proof -
  have s': "s < 0 \<or> s < sint nSamples" using s by simp
  have "\<not> s < 0" using s by simp
  then show ?thesis
    using ProcessAccumul_sample_at(1,2) [OF call gi i s(1) s']
    by (simp add: Let_def applied_gain_def chan_rank_def apply_channel_no_interpolation
        deltaCoeff_def fp_defs)
qed

theorem ProcessAccumul_no_interpolation_witness:
  "ProcessAccumul X_ex p_ex (md_ex (Fin (- 30)) 0 False 0) [1, 1, 1, 1]
       [[0, 0, 0, 0], [0, 0, 0, 0]] [[0, 0, 0, 0], [0, 0, 0, 0]] 4 0
     = Some (p_ex,
             [[Fin 0, Fin 0, Fin 0, Fin 0], [Fin 1, Fin 1, Fin 1, Fin 1]],
             [[Fin 0, Fin 0, Fin 0, Fin 0], [Fin 0, Fin 0, Fin 0, Fin 0]])
   \<and> gains_and_interp X_ex p_ex (md_ex (Fin (- 30)) 0 False 0) = Some ([Fin 0, Fin 1], 0)
   \<and> deltaCoeff 0 = PInf"
proof -
  have gi: "gains_and_interp X_ex p_ex (md_ex (Fin (- 30)) 0 False 0) = Some ([Fin 0, Fin 1], 0)"
    by (simp add: gains_and_interp_def ex_defs fp_defs)
  have call: "ProcessAccumul X_ex p_ex (md_ex (Fin (- 30)) 0 False 0) [1, 1, 1, 1]
       [[0, 0, 0, 0], [0, 0, 0, 0]] [[0, 0, 0, 0], [0, 0, 0, 0]] 4 0
     = Some (p_ex,
             [[Fin 0, Fin 0, Fin 0, Fin 0], [Fin 1, Fin 1, Fin 1, Fin 1]],
             [[Fin 0, Fin 0, Fin 0, Fin 0], [Fin 0, Fin 0, Fin 0, Fin 0]])"
    apply (simp add: ProcessAccumul_def gi)
    apply (simp add: apply_defs ex_defs fp_defs upt_small upto.simps)
    done
  have i: "1 < length (channels (m_layout p_ex))" "\<not> isLFE (channels (m_layout p_ex) ! 1)"
    by (simp_all add: ex_defs)
  have s: "(0::int) \<le> 3" "(3::int) < sint (4 :: 32 word)"
    by simp_all
  show ?thesis
    using ProcessAccumul_no_interpolation [OF call gi i s] call gi
    by simp
qed

section \<open>Two calls with the same metadata\<close>

lemma layout_ok_no_interpolation:
  "layout_ok chs gains lastGains pIn 0 N off m bufs
     = layout_ok chs gains lastGains' pIn 0 N off m bufs"
  by (simp add: layout_ok_def channel_ok_def samples_ok_def)

lemma bufs_after_no_interpolation:
  "bufs_after chs gains lastGains pIn 0 N off c m B
     = bufs_after chs gains lastGains' pIn 0 N off c m B"
  by (simp add: bufs_after_def channel_row_def)

text \<open>
  C3, as stated, fails. The panner has the stored gains 0 and 1; the metadata \<open>m\<close> ask
  for the gains 1 and 0 and an interpolation over two samples. The first call with \<open>m\<close>
  interpolates, the second call with \<open>m\<close> does not: on the same input and the same
  buffers the two calls add different values.
\<close>

theorem repeated_call_counterexample:
  "ProcessAccumul X_ex p_ex (md_ex (Fin 30) 0 True 2) [1, 1, 1, 1]
       [[0, 0, 0, 0], [0, 0, 0, 0]] [[0, 0, 0, 0], [0, 0, 0, 0]] 4 0
     = Some (p_ex \<lparr> m_gains := [Fin 1, Fin 0], m_metadata := md_ex (Fin 30) 0 True 2 \<rparr>,
             [[Fin 0, Fin (1 / 2), Fin 1, Fin 1], [Fin 1, Fin (1 / 2), Fin 0, Fin 0]],
             [[Fin 0, Fin 0, Fin 0, Fin 0], [Fin 0, Fin 0, Fin 0, Fin 0]])
   \<and> ProcessAccumul X_ex
       (p_ex \<lparr> m_gains := [Fin 1, Fin 0], m_metadata := md_ex (Fin 30) 0 True 2 \<rparr>)
       (md_ex (Fin 30) 0 True 2) [1, 1, 1, 1]
       [[0, 0, 0, 0], [0, 0, 0, 0]] [[0, 0, 0, 0], [0, 0, 0, 0]] 4 0
     = Some (p_ex \<lparr> m_gains := [Fin 1, Fin 0], m_metadata := md_ex (Fin 30) 0 True 2 \<rparr>,
             [[Fin 1, Fin 1, Fin 1, Fin 1], [Fin 0, Fin 0, Fin 0, Fin 0]],
             [[Fin 0, Fin 0, Fin 0, Fin 0], [Fin 0, Fin 0, Fin 0, Fin 0]])"
proof -
  have gi: "gains_and_interp X_ex p_ex (md_ex (Fin 30) 0 True 2) = Some ([Fin 1, Fin 0], 2)"
    by (simp add: model_defs ex_defs fp_defs upt_small)
  have gi2: "gains_and_interp X_ex
       (p_ex \<lparr> m_gains := [Fin 1, Fin 0], m_metadata := md_ex (Fin 30) 0 True 2 \<rparr>)
       (md_ex (Fin 30) 0 True 2) = Some ([Fin 1, Fin 0], 0)"
    by (simp add: gains_and_interp_def)
  have call1: "ProcessAccumul X_ex p_ex (md_ex (Fin 30) 0 True 2) [1, 1, 1, 1]
       [[0, 0, 0, 0], [0, 0, 0, 0]] [[0, 0, 0, 0], [0, 0, 0, 0]] 4 0
     = Some (p_ex \<lparr> m_gains := [Fin 1, Fin 0], m_metadata := md_ex (Fin 30) 0 True 2 \<rparr>,
             [[Fin 0, Fin (1 / 2), Fin 1, Fin 1], [Fin 1, Fin (1 / 2), Fin 0, Fin 0]],
             [[Fin 0, Fin 0, Fin 0, Fin 0], [Fin 0, Fin 0, Fin 0, Fin 0]])"
    apply (simp add: ProcessAccumul_def gi)
    apply (simp add: apply_defs ex_defs fp_defs upt_small upto.simps)
    done
  have call2: "ProcessAccumul X_ex
       (p_ex \<lparr> m_gains := [Fin 1, Fin 0], m_metadata := md_ex (Fin 30) 0 True 2 \<rparr>)
       (md_ex (Fin 30) 0 True 2) [1, 1, 1, 1]
       [[0, 0, 0, 0], [0, 0, 0, 0]] [[0, 0, 0, 0], [0, 0, 0, 0]] 4 0
     = Some (p_ex \<lparr> m_gains := [Fin 1, Fin 0], m_metadata := md_ex (Fin 30) 0 True 2 \<rparr>,
             [[Fin 1, Fin 1, Fin 1, Fin 1], [Fin 0, Fin 0, Fin 0, Fin 0]],
             [[Fin 0, Fin 0, Fin 0, Fin 0], [Fin 0, Fin 0, Fin 0, Fin 0]])"
    apply (simp add: ProcessAccumul_def gi2)
    apply (simp add: apply_defs ex_defs fp_defs upt_small upto.simps)
    done
  show ?thesis using call1 call2 by simp
qed

text \<open>
  C3, amended. After a call with the metadata \<open>m\<close>, a second call with \<open>m\<close> takes the
  stored gains, which are the gains of the first call, and has the interpolation length
  0. When the interpolation length of the first call was 0 as well, the second call, on
  the same input and the same buffers, returns the same buffers as the first, and leaves
  the panner as it was.
\<close>

theorem ProcessAccumul_repeated:
  assumes call: "ProcessAccumul X p m pIn ppDirect ppDiffuse nSamples nOffset
                   = Some (p1, ppDirect1, ppDiffuse1)"
  shows "gains_and_interp X p1 m = Some (m_gains p1, 0)
    \<and> (\<exists>nInterpSamples. gains_and_interp X p m = Some (m_gains p1, nInterpSamples))
    \<and> (gains_and_interp X p m = Some (m_gains p1, 0) \<longrightarrow>
         ProcessAccumul X p1 m pIn ppDirect ppDiffuse nSamples nOffset
           = Some (p1, ppDirect1, ppDiffuse1))"
proof -
  from ProcessAccumul_commit(1) [OF call] obtain n
    where gi: "gains_and_interp X p m = Some (m_gains p1, n)" by blast
  note R = ProcessAccumul_SomeD [OF call gi]
  have gi1: "gains_and_interp X p1 m = Some (m_gains p1, 0)"
    using ProcessAccumul_commit(2) [OF call] by (simp add: gains_and_interp_def)
  have p1: "p1 \<lparr> m_gains := m_gains p1, m_metadata := m, m_bFirstFrame := False \<rparr> = p1"
    using ProcessAccumul_commit(2,3) [OF call] by simp
  have same: "ProcessAccumul X p1 m pIn ppDirect ppDiffuse nSamples nOffset
                = Some (p1, ppDirect1, ppDiffuse1)" if "n = 0"
  proof -
    have lay: "m_layout p1 = m_layout p" by (rule ProcessAccumul_commit(4) [OF call])
    have ok: "layout_ok (channels (m_layout p)) (m_gains p1) (m_gains p1) pIn 0 nSamples nOffset
                (length (channels (m_layout p))) (ppDirect, ppDiffuse)"
      using R(1) that
      by (simp add: layout_ok_no_interpolation [of _ _ "m_gains p1" _ _ _ _ _ "m_gains p"])
    have d: "bufs_after (channels (m_layout p)) (m_gains p1) (m_gains p1) pIn 0 nSamples nOffset
                (fsqrt (1 - diffuse m)) (length (channels (m_layout p))) ppDirect = ppDirect1"
      unfolding R(2) that
      by (rule bufs_after_no_interpolation)
    have f: "bufs_after (channels (m_layout p)) (m_gains p1) (m_gains p1) pIn 0 nSamples nOffset
                (fsqrt (diffuse m)) (length (channels (m_layout p))) ppDiffuse = ppDiffuse1"
      unfolding R(3) that
      by (rule bufs_after_no_interpolation)
    show ?thesis
      unfolding ProcessAccumul_eq gi1 lay
      by (simp only: option.case prod.case ok if_True d f p1)
  qed
  show ?thesis
    using gi gi1 same by auto
qed

theorem ProcessAccumul_repeated_witness:
  "ProcessAccumul X_ex p_ex (md_ex (Fin 30) 0 False 0) [1, 1, 1, 1]
       [[0, 0, 0, 0], [0, 0, 0, 0]] [[0, 0, 0, 0], [0, 0, 0, 0]] 4 0
     = Some (p_ex \<lparr> m_gains := [Fin 1, Fin 0], m_metadata := md_ex (Fin 30) 0 False 0 \<rparr>,
             [[Fin 1, Fin 1, Fin 1, Fin 1], [Fin 0, Fin 0, Fin 0, Fin 0]],
             [[Fin 0, Fin 0, Fin 0, Fin 0], [Fin 0, Fin 0, Fin 0, Fin 0]])
   \<and> ProcessAccumul X_ex
       (p_ex \<lparr> m_gains := [Fin 1, Fin 0], m_metadata := md_ex (Fin 30) 0 False 0 \<rparr>)
       (md_ex (Fin 30) 0 False 0) [1, 1, 1, 1]
       [[0, 0, 0, 0], [0, 0, 0, 0]] [[0, 0, 0, 0], [0, 0, 0, 0]] 4 0
     = Some (p_ex \<lparr> m_gains := [Fin 1, Fin 0], m_metadata := md_ex (Fin 30) 0 False 0 \<rparr>,
             [[Fin 1, Fin 1, Fin 1, Fin 1], [Fin 0, Fin 0, Fin 0, Fin 0]],
             [[Fin 0, Fin 0, Fin 0, Fin 0], [Fin 0, Fin 0, Fin 0, Fin 0]])"
proof -
  have gi: "gains_and_interp X_ex p_ex (md_ex (Fin 30) 0 False 0) = Some ([Fin 1, Fin 0], 0)"
    by (simp add: model_defs ex_defs fp_defs upt_small)
  have call: "ProcessAccumul X_ex p_ex (md_ex (Fin 30) 0 False 0) [1, 1, 1, 1]
       [[0, 0, 0, 0], [0, 0, 0, 0]] [[0, 0, 0, 0], [0, 0, 0, 0]] 4 0
     = Some (p_ex \<lparr> m_gains := [Fin 1, Fin 0], m_metadata := md_ex (Fin 30) 0 False 0 \<rparr>,
             [[Fin 1, Fin 1, Fin 1, Fin 1], [Fin 0, Fin 0, Fin 0, Fin 0]],
             [[Fin 0, Fin 0, Fin 0, Fin 0], [Fin 0, Fin 0, Fin 0, Fin 0]])"
    apply (simp add: ProcessAccumul_def gi)
    apply (simp add: apply_defs ex_defs fp_defs upt_small upto.simps)
    done
  show ?thesis
    using ProcessAccumul_repeated [OF call] call gi by simp
qed

section \<open>The samples of the frame\<close>

lemma sint_le_uint32: "sint (w :: 32 word) \<le> uint w"
proof -
  have "- (2 ^ 31) \<le> uint w"
    by (rule order_trans [of _ 0]) simp_all
  then show ?thesis
    by (simp add: sint_uint signed_take_bit_int_less_eq_self_iff)
qed

lemma visited_in_frame:
  assumes "0 \<le> n" and "n \<le> uint N"
    and "s \<in> set (interp_range n) \<union> set (steady_range n N)"
  shows "0 \<le> s" and "s < uint N"
  using assms sint_le_uint32 [of N] by auto

lemma samples_ok_cong:
  "(\<And>s. s \<in> set ss \<Longrightarrow> sd s = sd' s) \<Longrightarrow>
   samples_ok sd off ss i bufs = samples_ok sd' off ss i bufs"
  by (auto simp add: samples_ok_def)

lemma row_after_cong:
  "(\<And>s. s \<in> set ss \<Longrightarrow> sd s = sd' s) \<Longrightarrow>
   row_after sd off c ss row = row_after sd' off c ss row"
proof (induction ss arbitrary: row)
  case Nil
  show ?case by simp
next
  case (Cons s ss)
  then show ?case by (simp add: row_after_Cons)
qed

lemma ptr_at_take:
  "s < int m \<Longrightarrow> ptr_at (take m xs) s = ptr_at xs s"
  by (auto simp add: ptr_at_def)

lemma interp_sample_take:
  "s < int m \<Longrightarrow>
   interp_sample gains lastGains (take m pIn) dC iCh s = interp_sample gains lastGains pIn dC iCh s"
  by (simp add: interp_sample_def ptr_at_take)

lemma steady_sample_take:
  "s < int m \<Longrightarrow> steady_sample gains (take m pIn) iCh s = steady_sample gains pIn iCh s"
  by (simp add: steady_sample_def ptr_at_take)

lemma channel_ok_take:
  assumes "0 \<le> n" and "n \<le> uint N"
  shows "channel_ok gains lastGains (take (unat N) pIn) n N off i iCh bufs
           = channel_ok gains lastGains pIn n N off i iCh bufs"
proof -
  have in_frame: "s < int (unat N)" if "s \<in> set (interp_range n) \<union> set (steady_range n N)" for s
    using visited_in_frame(2) [OF assms that] by simp
  have a: "samples_ok (interp_sample gains lastGains (take (unat N) pIn) (deltaCoeff n) iCh) off
             (interp_range n) i bufs
           = samples_ok (interp_sample gains lastGains pIn (deltaCoeff n) iCh) off
             (interp_range n) i bufs"
    by (rule samples_ok_cong, rule interp_sample_take, rule in_frame, rule UnI1)
  have b: "samples_ok (steady_sample gains (take (unat N) pIn) iCh) off (steady_range n N) i bufs
           = samples_ok (steady_sample gains pIn iCh) off (steady_range n N) i bufs"
    by (rule samples_ok_cong, rule steady_sample_take, rule in_frame, rule UnI2)
  show ?thesis
    unfolding channel_ok_def a b ..
qed

lemma channel_row_take:
  assumes "0 \<le> n" and "n \<le> uint N"
  shows "channel_row gains lastGains (take (unat N) pIn) n N off c iCh row
           = channel_row gains lastGains pIn n N off c iCh row"
proof -
  have in_frame: "s < int (unat N)" if "s \<in> set (interp_range n) \<union> set (steady_range n N)" for s
    using visited_in_frame(2) [OF assms that] by simp
  have a: "row_after (interp_sample gains lastGains (take (unat N) pIn) (deltaCoeff n) iCh) off c
             (interp_range n) row
           = row_after (interp_sample gains lastGains pIn (deltaCoeff n) iCh) off c
             (interp_range n) row"
    by (rule row_after_cong, rule interp_sample_take, rule in_frame, rule UnI1)
  have b: "row_after (steady_sample gains (take (unat N) pIn) iCh) off c (steady_range n N) r
           = row_after (steady_sample gains pIn iCh) off c (steady_range n N) r" for r
    by (rule row_after_cong, rule steady_sample_take, rule in_frame, rule UnI2)
  show ?thesis
    unfolding channel_row_def a b ..
qed

lemma ProcessAccumul_take:
  assumes gi: "gains_and_interp X p metadata = Some (gains, n)"
    and n: "0 \<le> n" "n \<le> uint N"
  shows "ProcessAccumul X p metadata (take (unat N) pIn) D F N off
           = ProcessAccumul X p metadata pIn D F N off"
proof -
  have ok: "layout_ok chs gains lastGains (take (unat N) pIn) n N off m bufs
              = layout_ok chs gains lastGains pIn n N off m bufs" for chs lastGains m bufs
    unfolding layout_ok_def channel_ok_take [OF n] ..
  have after: "bufs_after chs gains lastGains (take (unat N) pIn) n N off c m B
              = bufs_after chs gains lastGains pIn n N off c m B" for chs lastGains c m B
    unfolding bufs_after_def channel_row_take [OF n] ..
  show ?thesis
    by (simp only: ProcessAccumul_eq gi option.case prod.case ok after)
qed

lemma ProcessAccumul_outside_frame:
  assumes call: "ProcessAccumul X p metadata pIn D F N off = Some (p', D', F')"
    and gi: "gains_and_interp X p metadata = Some (gains, n)"
    and n: "0 \<le> n" "n \<le> uint N"
    and k: "k \<notin> sample_slot off ` {0..<uint N}"
  shows "i < length D \<Longrightarrow> D' ! i ! k = D ! i ! k" and "i < length F \<Longrightarrow> F' ! i ! k = F ! i ! k"
proof -
  have "set (interp_range n) \<union> set (steady_range n N) \<subseteq> {0..<uint N}"
  proof (rule subsetI)
    fix s
    assume "s \<in> set (interp_range n) \<union> set (steady_range n N)"
    from visited_in_frame [OF n this] show "s \<in> {0..<uint N}" by simp
  qed
  then have k': "k \<notin> sample_slot off ` (set (interp_range n) \<union> set (steady_range n N))"
    using k by blast
  show "i < length D \<Longrightarrow> D' ! i ! k = D ! i ! k" and "i < length F \<Longrightarrow> F' ! i ! k = F ! i ! k"
    using ProcessAccumul_untouched_slot [OF call gi k'] by simp_all
qed

text \<open>
  C10, as stated, fails. A jump position with the interpolation length \<open>-1\<close> gives the
  call the interpolation length \<open>-1\<close>, which is at most the four samples of the frame;
  the second loop then starts at the sample \<open>-1\<close> and reads \<open>pIn\<close> there, outside the
  frame.
\<close>

theorem negative_length_counterexample:
  "gains_and_interp X_ex p_ex (md_ex (Fin 30) 0 True (- 1)) = Some ([Fin 1, Fin 0], - 1)
   \<and> - 1 \<le> uint (4 :: 32 word)
   \<and> steady_range (- 1) 4 = [- 1, 0, 1, 2, 3]
   \<and> ProcessAccumul X_ex p_ex (md_ex (Fin 30) 0 True (- 1)) [1, 1, 1, 1]
         [[0, 0, 0, 0], [0, 0, 0, 0]] [[0, 0, 0, 0], [0, 0, 0, 0]] 4 0 = None"
proof -
  have gi: "gains_and_interp X_ex p_ex (md_ex (Fin 30) 0 True (- 1)) = Some ([Fin 1, Fin 0], - 1)"
    by (simp add: model_defs ex_defs fp_defs upt_small)
  have r: "steady_range (- 1) 4 = [- 1, 0, 1, 2, 3]"
    by (simp add: steady_range_def upto.simps)
  have call: "ProcessAccumul X_ex p_ex (md_ex (Fin 30) 0 True (- 1)) [1, 1, 1, 1]
         [[0, 0, 0, 0], [0, 0, 0, 0]] [[0, 0, 0, 0], [0, 0, 0, 0]] 4 0 = None"
    apply (simp add: ProcessAccumul_def gi)
    apply (simp add: apply_defs ex_defs fp_defs upt_small upto.simps)
    done
  show ?thesis using gi r call by simp
qed

text \<open>
  C10, amended. When the interpolation length of the call is at least 0 and at most
  \<open>nSamples\<close>, every sample of the two loops is in the frame, from 0 below \<open>nSamples\<close>:
  the call does not depend on \<open>pIn\<close> beyond its first \<open>nSamples\<close> values, and it leaves
  every slot of the two buffers as it was, except the slots of the samples of the frame.
  When the interpolation length exceeds \<open>nSamples\<close>, the first loop, whose bound is the
  interpolation length alone, goes on beyond the frame: with the length 6 and a frame of
  4 samples it reads \<open>pIn\<close> at the samples 4 and 5, which is a fault when \<open>pIn\<close> ends
  with the frame, and writes the slots of the samples 4 and 5 when the memory is there.
\<close>

theorem ProcessAccumul_within_frame:
  "(gains_and_interp X p metadata = Some (gains, nInterpSamples)
      \<and> 0 \<le> nInterpSamples \<and> nInterpSamples \<le> uint nSamples \<longrightarrow>
      (\<forall>s \<in> set (interp_range nInterpSamples) \<union> set (steady_range nInterpSamples nSamples).
          0 \<le> s \<and> s < uint nSamples)
      \<and> ProcessAccumul X p metadata (take (unat nSamples) pIn) ppDirect ppDiffuse nSamples nOffset
          = ProcessAccumul X p metadata pIn ppDirect ppDiffuse nSamples nOffset
      \<and> (\<forall>p' ppDirect' ppDiffuse' i k.
            ProcessAccumul X p metadata pIn ppDirect ppDiffuse nSamples nOffset
              = Some (p', ppDirect', ppDiffuse')
            \<and> k \<notin> sample_slot nOffset ` {0..<uint nSamples} \<longrightarrow>
            (i < length ppDirect \<longrightarrow> ppDirect' ! i ! k = ppDirect ! i ! k)
            \<and> (i < length ppDiffuse \<longrightarrow> ppDiffuse' ! i ! k = ppDiffuse ! i ! k)))
   \<and> (gains_and_interp X_ex p_ex (md_ex (Fin 30) 0 True 6) = Some ([Fin 1, Fin 0], 6)
      \<and> uint (4 :: 32 word) < 6
      \<and> interp_range 6 = [0, 1, 2, 3, 4, 5]
      \<and> ProcessAccumul X_ex p_ex (md_ex (Fin 30) 0 True 6) [1, 1, 1, 1]
           [[0, 0, 0, 0], [0, 0, 0, 0]] [[0, 0, 0, 0], [0, 0, 0, 0]] 4 0 = None
      \<and> ProcessAccumul X_ex p_ex (md_ex (Fin 30) 0 True 6) [1, 1, 1, 1, 1, 1]
           [[0, 0, 0, 0, 0, 0], [0, 0, 0, 0, 0, 0]] [[0, 0, 0, 0, 0, 0], [0, 0, 0, 0, 0, 0]] 4 0
         = Some (p_ex \<lparr> m_gains := [Fin 1, Fin 0], m_metadata := md_ex (Fin 30) 0 True 6 \<rparr>,
                 [[Fin 0, Fin (1 / 6), Fin (1 / 3), Fin (1 / 2), Fin (2 / 3), Fin (5 / 6)],
                  [Fin 1, Fin (5 / 6), Fin (2 / 3), Fin (1 / 2), Fin (1 / 3), Fin (1 / 6)]],
                 [[Fin 0, Fin 0, Fin 0, Fin 0, Fin 0, Fin 0],
                  [Fin 0, Fin 0, Fin 0, Fin 0, Fin 0, Fin 0]]))"
proof (intro conjI impI ballI allI; (elim conjE)?)
  fix s
  assume "0 \<le> nInterpSamples" "nInterpSamples \<le> uint nSamples"
    and "s \<in> set (interp_range nInterpSamples) \<union> set (steady_range nInterpSamples nSamples)"
  from visited_in_frame [OF this] show "0 \<le> s" "s < uint nSamples" .
next
  assume "gains_and_interp X p metadata = Some (gains, nInterpSamples)"
    "0 \<le> nInterpSamples" "nInterpSamples \<le> uint nSamples"
  then show "ProcessAccumul X p metadata (take (unat nSamples) pIn) ppDirect ppDiffuse
                nSamples nOffset
          = ProcessAccumul X p metadata pIn ppDirect ppDiffuse nSamples nOffset"
    by (rule ProcessAccumul_take)
next
  fix p' ppDirect' ppDiffuse' i k
  assume a: "gains_and_interp X p metadata = Some (gains, nInterpSamples)"
    "0 \<le> nInterpSamples" "nInterpSamples \<le> uint nSamples"
    and call: "ProcessAccumul X p metadata pIn ppDirect ppDiffuse nSamples nOffset
              = Some (p', ppDirect', ppDiffuse')"
    and k: "k \<notin> sample_slot nOffset ` {0..<uint nSamples}"
  note u = ProcessAccumul_outside_frame [OF call a k]
  { assume "i < length ppDirect" then show "ppDirect' ! i ! k = ppDirect ! i ! k" by (rule u(1)) }
  { assume "i < length ppDiffuse" then show "ppDiffuse' ! i ! k = ppDiffuse ! i ! k" by (rule u(2)) }
next
  show gi: "gains_and_interp X_ex p_ex (md_ex (Fin 30) 0 True 6) = Some ([Fin 1, Fin 0], 6)"
    by (simp add: model_defs ex_defs fp_defs upt_small)
  show "uint (4 :: 32 word) < 6" by simp
  show "interp_range 6 = [0, 1, 2, 3, 4, 5]"
    by (simp add: interp_range_def upto.simps)
  show "ProcessAccumul X_ex p_ex (md_ex (Fin 30) 0 True 6) [1, 1, 1, 1]
           [[0, 0, 0, 0], [0, 0, 0, 0]] [[0, 0, 0, 0], [0, 0, 0, 0]] 4 0 = None"
    apply (simp add: ProcessAccumul_def gi)
    apply (simp add: apply_defs ex_defs fp_defs upt_small upto.simps)
    done
  show "ProcessAccumul X_ex p_ex (md_ex (Fin 30) 0 True 6) [1, 1, 1, 1, 1, 1]
           [[0, 0, 0, 0, 0, 0], [0, 0, 0, 0, 0, 0]] [[0, 0, 0, 0, 0, 0], [0, 0, 0, 0, 0, 0]] 4 0
         = Some (p_ex \<lparr> m_gains := [Fin 1, Fin 0], m_metadata := md_ex (Fin 30) 0 True 6 \<rparr>,
                 [[Fin 0, Fin (1 / 6), Fin (1 / 3), Fin (1 / 2), Fin (2 / 3), Fin (5 / 6)],
                  [Fin 1, Fin (5 / 6), Fin (2 / 3), Fin (1 / 2), Fin (1 / 3), Fin (1 / 6)]],
                 [[Fin 0, Fin 0, Fin 0, Fin 0, Fin 0, Fin 0],
                  [Fin 0, Fin 0, Fin 0, Fin 0, Fin 0, Fin 0]])"
    apply (simp add: ProcessAccumul_def gi)
    apply (simp add: apply_defs ex_defs fp_defs upt_small upto.simps)
    done
qed

theorem ProcessAccumul_within_frame_witness:
  "gains_and_interp X_ex p_ex (md_ex (Fin 30) 0 True 2) = Some ([Fin 1, Fin 0], 2)
   \<and> (0 :: int) \<le> 2 \<and> 2 \<le> uint (4 :: 32 word)
   \<and> ProcessAccumul X_ex p_ex (md_ex (Fin 30) 0 True 2) [1, 1, 1, 1, Fin 9, Fin 9]
         [[0, 0, 0, 0], [0, 0, 0, 0]] [[0, 0, 0, 0], [0, 0, 0, 0]] 4 0
       = Some (p_ex \<lparr> m_gains := [Fin 1, Fin 0], m_metadata := md_ex (Fin 30) 0 True 2 \<rparr>,
               [[Fin 0, Fin (1 / 2), Fin 1, Fin 1], [Fin 1, Fin (1 / 2), Fin 0, Fin 0]],
               [[Fin 0, Fin 0, Fin 0, Fin 0], [Fin 0, Fin 0, Fin 0, Fin 0]])"
proof -
  have gi: "gains_and_interp X_ex p_ex (md_ex (Fin 30) 0 True 2) = Some ([Fin 1, Fin 0], 2)"
    by (simp add: model_defs ex_defs fp_defs upt_small)
  have call: "ProcessAccumul X_ex p_ex (md_ex (Fin 30) 0 True 2) [1, 1, 1, 1]
       [[0, 0, 0, 0], [0, 0, 0, 0]] [[0, 0, 0, 0], [0, 0, 0, 0]] 4 0
     = Some (p_ex \<lparr> m_gains := [Fin 1, Fin 0], m_metadata := md_ex (Fin 30) 0 True 2 \<rparr>,
             [[Fin 0, Fin (1 / 2), Fin 1, Fin 1], [Fin 1, Fin (1 / 2), Fin 0, Fin 0]],
             [[Fin 0, Fin 0, Fin 0, Fin 0], [Fin 0, Fin 0, Fin 0, Fin 0]])"
    apply (simp add: ProcessAccumul_def gi)
    apply (simp add: apply_defs ex_defs fp_defs upt_small upto.simps)
    done
  have cut: "take (unat (4 :: 32 word)) [1, 1, 1, 1, Fin 9, Fin 9] = [1, 1, 1, 1 :: fp]"
    by simp
  have "ProcessAccumul X_ex p_ex (md_ex (Fin 30) 0 True 2)
          (take (unat (4 :: 32 word)) [1, 1, 1, 1, Fin 9, Fin 9])
          [[0, 0, 0, 0], [0, 0, 0, 0]] [[0, 0, 0, 0], [0, 0, 0, 0]] 4 0
        = ProcessAccumul X_ex p_ex (md_ex (Fin 30) 0 True 2) [1, 1, 1, 1, Fin 9, Fin 9]
          [[0, 0, 0, 0], [0, 0, 0, 0]] [[0, 0, 0, 0], [0, 0, 0, 0]] 4 0"
    using ProcessAccumul_within_frame
      [where X = X_ex and p = p_ex and metadata = "md_ex (Fin 30) 0 True 2"
         and gains = "[Fin 1, Fin 0]" and nInterpSamples = 2 and nSamples = 4
         and pIn = "[1, 1, 1, 1, Fin 9, Fin 9]"
         and ppDirect = "[[0, 0, 0, 0], [0, 0, 0, 0]]"
         and ppDiffuse = "[[0, 0, 0, 0], [0, 0, 0, 0]]" and nOffset = 0]
      gi
    by simp
  then show ?thesis
    using gi call by (simp only: cut) simp
qed

section \<open>Calls that return\<close>

lemma chan_rank_less:
  assumes "i < length chs" and "\<not> isLFE (chs ! i)"
  shows "chan_rank chs i < count_nonLFE chs"
proof -
  have "chs = take i chs @ chs ! i # drop (Suc i) chs"
    using assms(1) by (simp add: id_take_nth_drop)
  then have "count_nonLFE chs
               = count_nonLFE (take i chs) + 1 + count_nonLFE (drop (Suc i) chs)"
    using assms(2) unfolding count_nonLFE_def
    by (metis (mono_tags, lifting) One_nat_def add.assoc filter.simps(2) filter_append
        length_Cons length_append plus_1_eq_Suc)
  then show ?thesis by (simp add: chan_rank_def)
qed

lemma sample_slot_nat:
  assumes "0 \<le> s" and "s + uint off < 2 ^ 32"
  shows "sample_slot off s = nat s + unat off"
proof -
  have "uint (word_of_int s + off :: 32 word) = (s + uint off) mod 2 ^ 32"
    by (simp add: uint_word_ariths uint_word_of_int mod_add_left_eq)
  also have "\<dots> = s + uint off"
    using assms by simp
  finally have "uint (word_of_int s + off :: 32 word) = s + uint off" .
  then have "nat (uint (word_of_int s + off :: 32 word)) = nat (s + uint off)"
    by simp
  then show ?thesis
    using assms(1) by (simp add: sample_slot_def nat_add_distrib)
qed

text \<open>
  A call that respects the contract of the specification returns: with an interpolation
  length from 0 to \<open>nSamples\<close>, \<open>nSamples\<close> valid input samples, gain vectors as long
  as the layout has non-LFE channels, and a row of at least \<open>nOffset + nSamples\<close> slots
  for every channel in both buffers, no access leaves its valid range.
\<close>

lemma ProcessAccumul_returns:
  assumes gi: "gains_and_interp X p metadata = Some (gains, n)"
    and n: "0 \<le> n" "n \<le> sint N"
    and pIn: "sint N \<le> int (length pIn)"
    and g: "count_nonLFE (channels (m_layout p)) \<le> length gains"
           "count_nonLFE (channels (m_layout p)) \<le> length (m_gains p)"
    and rows: "length (channels (m_layout p)) \<le> length D"
              "length (channels (m_layout p)) \<le> length F"
    and slots: "\<And>i. i < length (channels (m_layout p)) \<Longrightarrow>
                  unat nOffset + unat N \<le> length (D ! i)
                  \<and> unat nOffset + unat N \<le> length (F ! i)"
    and wrap: "uint nOffset + uint N \<le> 2 ^ 32"
  shows "\<exists>r. ProcessAccumul X p metadata pIn D F N nOffset = Some r"
proof -
  let ?chs = "channels (m_layout p)"
  have N: "sint N = uint N"
  proof -
    have st: "sint N = signed_take_bit 31 (uint N)"
      by (simp add: sint_uint)
    have nonneg: "0 \<le> signed_take_bit 31 (uint N)"
      using n unfolding st by linarith
    have small: "uint N < 2 ^ 31"
    proof (rule ccontr)
      assume "\<not> uint N < 2 ^ 31"
      then have "2 ^ 31 \<le> uint N" by simp
      from signed_take_bit_int_less_eq [OF this]
      have "signed_take_bit 31 (uint N) \<le> uint N - 4294967296" by simp
      moreover have "uint N < 4294967296"
        using uint_bounded [of N] by simp
      ultimately show False
        using nonneg by linarith
    qed
    have "- (2 ^ 31) \<le> uint N"
      by (rule order_trans [of _ 0]) simp_all
    then show ?thesis
      using small unfolding st by (rule signed_take_bit_int_eq_self)
  qed
  have slot: "sample_slot nOffset s < length (D ! i) \<and> sample_slot nOffset s < length (F ! i)"
    if "i < length ?chs" "0 \<le> s" "s < sint N" for i s
  proof -
    have "s + uint nOffset < 2 ^ 32" using that(3) N wrap by simp
    then have "sample_slot nOffset s = nat s + unat nOffset"
      using that(2) by (rule sample_slot_nat [rotated])
    moreover have "nat s < unat N" using that(2,3) N by (simp add: nat_less_iff)
    ultimately show ?thesis using slots [OF that(1)] by simp
  qed
  have "channel_ok gains (m_gains p) pIn n N nOffset i (chan_rank ?chs i) (D, F)"
    if i: "i < length ?chs" "\<not> isLFE (?chs ! i)" for i
  proof -
    have k: "chan_rank ?chs i < length gains" "chan_rank ?chs i < length (m_gains p)"
      using chan_rank_less [OF i] g by simp_all
    have a: "interp_sample gains (m_gains p) pIn (deltaCoeff n) (chan_rank ?chs i) s \<noteq> None"
      if "0 \<le> s" "s < n" for s
      using that k n pIn by (simp add: interp_sample_def ptr_at_def vec_at_def)
    have b: "steady_sample gains pIn (chan_rank ?chs i) s \<noteq> None"
      if "n \<le> s" "s < sint N" for s
      using that k n pIn by (simp add: steady_sample_def ptr_at_def vec_at_def)
    show ?thesis
      unfolding channel_ok_def samples_ok_def
      using i rows a b slot [OF i(1)] n by auto
  qed
  then have "layout_ok ?chs gains (m_gains p) pIn n N nOffset (length ?chs) (D, F)"
    by (simp add: layout_ok_def)
  then show ?thesis
    by (simp add: ProcessAccumul_eq gi)
qed

text \<open>
  The gains of a call are computed without a fault when the gain calculator returns at
  least one gain for every non-LFE channel.
\<close>

lemma gains_and_interp_returns:
  assumes "\<And>pos. m_nCh p \<le> length (CalculateGains X pos)"
  shows "\<exists>r. gains_and_interp X p metadata = Some r"
proof -
  let ?r = "divergedPositionsAndGains X (objectDivergence metadata) (panning_direction X metadata)"
  have "power_ok (snd ?r) (map (CalculateGains X) (fst ?r)) i (length (snd ?r))"
    if "i < m_nCh p" for i
    unfolding power_ok_def
    using that assms
    by (auto simp add: length_divergedPositionsAndGains less_le_trans)
  then have "\<exists>pre. summed_gains X (m_nCh p) metadata = Some pre"
    by (simp add: summed_gains_def Let_def gains_for_positions_eq power_summation_eq
        length_divergedPositionsAndGains)
  then show ?thesis
    by (auto simp add: gains_and_interp_def recomputed_gains_def)
qed

end
